theory Spec2Isabelle
  imports Complex_Main "HOL-Library.Multiset" "HOL-Library.List_Lexorder" "HOL-Library.Product_Lexorder"
begin

section \<open>Python strings\<close>

text \<open>
  A Python \<open>str\<close> is a sequence of Unicode code points. A code point is a natural
  number here, so that \<open>len\<close>, slicing and \<open>rfind\<close> count what Python counts, for
  every text and not only for ASCII.
\<close>

type_synonym codepoint = nat
type_synonym pystr = "codepoint list"

text \<open>A literal: \<open>py ''A. ''\<close> is the Python string \<open>"A. "\<close>.\<close>

definition py :: "string \<Rightarrow> pystr" where
  "py s = map of_char s"

text \<open>
  \<open>str.isspace\<close> on one code point; the class \<open>\s\<close> of \<open>re\<close> and the characters
  removed by \<open>str.strip()\<close> are the same set.
\<close>

definition is_space :: "codepoint \<Rightarrow> bool" where
  "is_space c \<longleftrightarrow>
     (9 \<le> c \<and> c \<le> 13) \<or> (28 \<le> c \<and> c \<le> 32) \<or> c = 133 \<or> c = 160 \<or> c = 5760 \<or>
     (8192 \<le> c \<and> c \<le> 8202) \<or> c = 8232 \<or> c = 8233 \<or> c = 8239 \<or> c = 8287 \<or> c = 12288"

text \<open>\<open>s.strip()\<close>: leading and trailing whitespace removed.\<close>

definition strip :: "pystr \<Rightarrow> pystr" where
  "strip s = rev (dropWhile is_space (rev (dropWhile is_space s)))"

text \<open>\<open>re.sub(r'\s+', ' ', s)\<close>: every maximal run of whitespace becomes one space.\<close>

function sub_ws :: "pystr \<Rightarrow> pystr" where
  "sub_ws [] = []"
| "sub_ws (c # cs) =
     (if is_space c then 32 # sub_ws (dropWhile is_space cs) else c # sub_ws cs)"
  by pat_completeness auto
termination
  by (relation "measure length") (auto simp: length_dropWhile_le less_Suc_eq_le)

text \<open>
  Slice indices as Python resolves them: a negative index counts from the end, and
  the result is clamped to \<open>0 .. len\<close>.
\<close>

definition slice_index :: "nat \<Rightarrow> int \<Rightarrow> nat" where
  "slice_index n i = (if i < 0 then nat (max 0 (int n + i)) else min n (nat i))"

text \<open>\<open>s[a:b]\<close> and \<open>s[a:]\<close>.\<close>

definition py_slice :: "'a list \<Rightarrow> int \<Rightarrow> int \<Rightarrow> 'a list" where
  "py_slice s a b =
     (let lo = slice_index (length s) a; hi = slice_index (length s) b
      in take (hi - lo) (drop lo s))"

definition py_slice_from :: "'a list \<Rightarrow> int \<Rightarrow> 'a list" where
  "py_slice_from s a = drop (slice_index (length s) a) s"

text \<open>
  \<open>s.rfind(sub)\<close>: the highest index at which \<open>sub\<close> occurs in \<open>s\<close>, or \<open>-1\<close>.
  \<open>rfind_from s sub i\<close> tries the positions \<open>i, i - 1, ..., 0\<close>.
\<close>

fun rfind_from :: "'a list \<Rightarrow> 'a list \<Rightarrow> nat \<Rightarrow> int" where
  "rfind_from s sub 0 = (if take (length sub) s = sub then 0 else - 1)"
| "rfind_from s sub (Suc i) =
     (if take (length sub) (drop (Suc i) s) = sub then int (Suc i) else rfind_from s sub i)"

definition rfind :: "'a list \<Rightarrow> 'a list \<Rightarrow> int" where
  "rfind s sub =
     (if length sub \<le> length s then rfind_from s sub (length s - length sub) else - 1)"

section \<open>The chunker (\<open>DocumentIndexer.chunk_text\<close>)\<close>

text \<open>The class constants of \<open>DocumentIndexer\<close>.\<close>

definition CHUNK_SIZE :: int where
  "CHUNK_SIZE = 1000"

definition CHUNK_OVERLAP :: int where
  "CHUNK_OVERLAP = 200"

text \<open>The sentence endings, in the order the source tries them.\<close>

definition sentence_patterns :: "pystr list" where
  "sentence_patterns =
     [py ''. '', [46, 10], py ''? '', [63, 10], py ''! '', [33, 10], [10, 10]]"

text \<open>
  The \<open>for pattern in [...]\<close> loop: the first pattern whose last occurrence in the
  search window ends past \<open>limit\<close> decides; \<open>-1\<close> when no pattern does.
\<close>

fun sentence_break :: "pystr list \<Rightarrow> pystr \<Rightarrow> int \<Rightarrow> int \<Rightarrow> int" where
  "sentence_break [] search_text search_start limit = - 1"
| "sentence_break (pattern # rest) search_text search_start limit =
     (let pos = rfind search_text pattern in
      if pos \<noteq> - 1 then
        (let actual_pos = search_start + pos + int (length pattern) in
         if actual_pos > limit then actual_pos
         else sentence_break rest search_text search_start limit)
      else sentence_break rest search_text search_start limit)"

text \<open>
  The break position of one window (\<open>best_break\<close>): a sentence boundary in the
  window \<open>start + chunk_size - 100 .. start + chunk_size + 100\<close>, else the last space of
  \<open>text[start:end + 50]\<close> if it lies past the midpoint, else \<open>end\<close>.
\<close>

definition find_break :: "int \<Rightarrow> pystr \<Rightarrow> int \<Rightarrow> int" where
  "find_break chunk_size text start =
     (let end_pos = start + chunk_size;
          search_start = max (start + chunk_size - 100) start;
          search_end = min (start + chunk_size + 100) (int (length text));
          search_text = py_slice text search_start search_end;
          best_break = sentence_break sentence_patterns search_text search_start
                         (start + chunk_size div 2)
      in if best_break = - 1 then
           (let search_text = py_slice text start (end_pos + 50);
                space_pos = rfind search_text [32]
            in if space_pos > chunk_size div 2 then start + space_pos else end_pos)
         else best_break)"

text \<open>\<open>start = best_break - overlap; if start < 0: start = best_break\<close>.\<close>

definition next_start :: "int \<Rightarrow> int \<Rightarrow> int" where
  "next_start overlap best_break =
     (let start = best_break - overlap in if start < 0 then best_break else start)"

text \<open>
  The \<open>while start < len(text)\<close> loop, for any chunk size and overlap. The loop need
  not end for every pair of parameters, so the result is an option: \<open>None\<close> is a loop
  that never returns.
\<close>

partial_function (option) chunk_loop ::
  "int \<Rightarrow> int \<Rightarrow> pystr \<Rightarrow> int \<Rightarrow> pystr list \<Rightarrow> pystr list option" where
  "chunk_loop chunk_size overlap text start chunks =
     (if start < int (length text) then
        (if start + chunk_size \<ge> int (length text) then
           Some (chunks @ [strip (py_slice_from text start)])
         else
           (let best_break = find_break chunk_size text start;
                chunk = strip (py_slice text start best_break);
                chunks' = (if chunk \<noteq> [] then chunks @ [chunk] else chunks)
            in chunk_loop chunk_size overlap text (next_start overlap best_break) chunks'))
      else Some chunks)"

text \<open>\<open>re.sub(r'\s+', ' ', text).strip()\<close>\<close>

definition normalize :: "pystr \<Rightarrow> pystr" where
  "normalize text = strip (sub_ws text)"

text \<open>
  \<open>chunk_text\<close> reads its two parameters from \<open>self.CHUNK_SIZE\<close> and
  \<open>self.CHUNK_OVERLAP\<close>. \<open>chunk_text_with\<close> is the method with the two values as
  arguments, so that a configuration other than the class constants can be stated;
  \<open>chunk_text\<close> is the method as the class configures it.
\<close>

definition chunk_text_with :: "int \<Rightarrow> int \<Rightarrow> pystr \<Rightarrow> pystr list option" where
  "chunk_text_with chunk_size overlap raw =
     (let text = normalize raw in
      if int (length text) \<le> chunk_size then Some (if text \<noteq> [] then [text] else [])
      else chunk_loop chunk_size overlap text 0 [])"

definition chunk_text :: "pystr \<Rightarrow> pystr list option" where
  "chunk_text raw = chunk_text_with CHUNK_SIZE CHUNK_OVERLAP raw"

section \<open>Errors\<close>

text \<open>
  The exceptions that reach this code: those of its collaborators, and the
  \<open>UnicodeEncodeError\<close> of \<open>str.encode\<close>. \<open>RetryError\<close> is what tenacity raises when
  the last allowed attempt has failed; it carries that attempt's exception.
\<close>

datatype error =
    ValueError
  | IndexError
  | HTTPStatusError
  | OpenAIError
  | HttpResponseError
  | UnicodeEncodeError
  | RetryError error

section \<open>Embeddings (\<open>EmbeddingsGenerator\<close>)\<close>

type_synonym vector = "real list"
type_synonym token = nat

text \<open>One element of \<open>response.data\<close>: the request-local index and the vector.\<close>

record embedding_item =
  index :: int
  embedding :: vector

text \<open>
  What the generator is built on, taken as parameters: the tiktoken encoding, the
  dimension of the configured model, and the embedding service.
  \<open>embeddings_create attempt batch\<close> is the outcome of
  \<open>client.embeddings.create(model, input=batch)\<close> during the given attempt of the
  retry wrapper: an exception, or \<open>response.data\<close> in the order the service chose.
\<close>

record embedder =
  encode :: "pystr \<Rightarrow> token list"
  decode :: "token list \<Rightarrow> pystr"
  dimensions :: nat
  embeddings_create :: "nat \<Rightarrow> pystr list \<Rightarrow> error + embedding_item list"

text \<open>\<open>MODEL_TOKEN_LIMITS.get(self.model, 8191)\<close>: every entry of the table is 8191.\<close>

definition token_limit :: nat where
  "token_limit = 8191"

definition truncate_to_token_limit :: "embedder \<Rightarrow> pystr \<Rightarrow> pystr" where
  "truncate_to_token_limit g text =
     (let max_tokens = token_limit; tokens = encode g text
      in if length tokens \<le> max_tokens then text else decode g (take max_tokens tokens))"

text \<open>
  \<open>@retry(stop=stop_after_attempt(3), ...)\<close>: the body runs again after any
  exception, three times at most.
\<close>

definition retry3 :: "(nat \<Rightarrow> error + 'a) \<Rightarrow> error + 'a" where
  "retry3 body =
     (case body 1 of Inr v \<Rightarrow> Inr v
      | Inl _ \<Rightarrow>
        (case body 2 of Inr v \<Rightarrow> Inr v
         | Inl _ \<Rightarrow> (case body 3 of Inr v \<Rightarrow> Inr v | Inl e \<Rightarrow> Inl (RetryError e))))"

text \<open>
  One attempt of \<open>generate_embedding\<close>. The service is called with the one text;
  \<open>response.data[0]\<close> raises \<open>IndexError\<close> on an empty answer.
\<close>

definition generate_embedding_attempt :: "embedder \<Rightarrow> pystr \<Rightarrow> nat \<Rightarrow> error + vector" where
  "generate_embedding_attempt g raw attempt =
     (let text = truncate_to_token_limit g raw in
      if strip text = [] then Inr (replicate (dimensions g) 0)
      else (case embeddings_create g attempt [text] of
              Inl e \<Rightarrow> Inl e
            | Inr data \<Rightarrow> (case data of [] \<Rightarrow> Inl IndexError | d # _ \<Rightarrow> Inr (embedding d))))"

definition generate_embedding :: "embedder \<Rightarrow> pystr \<Rightarrow> error + vector" where
  "generate_embedding g text = retry3 (generate_embedding_attempt g text)"

text \<open>The preprocessing loop: truncated texts, a single space for a blank one.\<close>

definition preprocess :: "embedder \<Rightarrow> pystr list \<Rightarrow> pystr list" where
  "preprocess g texts =
     map (\<lambda>text. let truncated = truncate_to_token_limit g text
                 in if strip truncated \<noteq> [] then truncated else [32]) texts"

text \<open>
  \<open>processed_texts[i:i + batch_size]\<close> for \<open>i\<close> in \<open>range(0, len, batch_size)\<close>, for
  a positive batch size.
\<close>

function batches_of :: "nat \<Rightarrow> 'a list \<Rightarrow> 'a list list" where
  "batches_of n xs = (if n = 0 \<or> xs = [] then [] else take n xs # batches_of n (drop n xs))"
  by pat_completeness auto
termination
  by (relation "measure (\<lambda>(n, xs). length xs)") auto

declare batches_of.simps [simp del]

text \<open>
  The batch loop: each response is sorted by \<open>index\<close> (Python's \<open>sorted\<close> is
  stable, as \<open>sort_key\<close> is) and its vectors are appended to \<open>embeddings\<close>.
\<close>

fun embed_batches ::
  "(pystr list \<Rightarrow> error + embedding_item list) \<Rightarrow> pystr list list \<Rightarrow> vector list \<Rightarrow>
   error + vector list" where
  "embed_batches create [] embeddings = Inr embeddings"
| "embed_batches create (batch # rest) embeddings =
     (case create batch of
        Inl e \<Rightarrow> Inl e
      | Inr data \<Rightarrow>
          embed_batches create rest (embeddings @ map embedding (sort_key index data)))"

text \<open>
  One attempt of \<open>generate_embeddings_batch\<close>. \<open>range\<close> raises \<open>ValueError\<close> for a
  step of 0 and is empty for a negative step.
\<close>

definition generate_embeddings_batch_attempt ::
  "embedder \<Rightarrow> pystr list \<Rightarrow> int \<Rightarrow> nat \<Rightarrow> error + vector list" where
  "generate_embeddings_batch_attempt g texts batch_size attempt =
     (let processed_texts = preprocess g texts in
      if batch_size = 0 then Inl ValueError
      else if batch_size < 0 then Inr []
      else embed_batches (embeddings_create g attempt)
             (batches_of (nat batch_size) processed_texts) [])"

definition generate_embeddings_batch ::
  "embedder \<Rightarrow> pystr list \<Rightarrow> int \<Rightarrow> error + vector list" where
  "generate_embeddings_batch g texts batch_size =
     retry3 (generate_embeddings_batch_attempt g texts batch_size)"

section \<open>Retrieval (\<open>PolicyRetriever\<close>)\<close>

text \<open>The dataclass \<open>RetrievalResult\<close>; its field \<open>id\<close> is \<open>rid\<close> here.\<close>

record RetrievalResult =
  rid :: pystr
  document_name :: pystr
  content :: pystr
  score :: real
  source_url :: pystr
  chunk_index :: int

text \<open>
  A result row of the search service. \<open>id\<close>, \<open>document_name\<close> and \<open>content\<close> are
  read with \<open>result[...]\<close>; the other fields with \<open>result.get(..., default)\<close>, so
  they may be missing.
\<close>

record search_hit =
  hit_id :: pystr
  hit_document_name :: pystr
  hit_content :: pystr
  hit_source_url :: "pystr option"
  hit_chunk_index :: "int option"
  hit_score :: "real option"

text \<open>
  The filter expressions the retriever sends, kept structured: the service, not this
  code, gives the OData text its meaning.
\<close>

datatype search_filter =
    DocumentNameEq pystr
  | DocumentNameAndChunkIndexIn pystr "int set"

record search_request =
  search_text :: pystr
  vector_query :: "(vector \<times> int) option"
  filter_expr :: "search_filter option"
  top_count :: "int option"

text \<open>
  The retriever's collaborators: the embedder, and \<open>search_client.search\<close> as a
  function from the request to an exception or the rows in the service's ranking
  order.
\<close>

record retriever =
  embeddings :: embedder
  search_client :: "search_request \<Rightarrow> error + search_hit list"

definition to_result :: "search_hit \<Rightarrow> real \<Rightarrow> RetrievalResult" where
  "to_result hit sc =
     \<lparr>rid = hit_id hit, document_name = hit_document_name hit, content = hit_content hit,
      score = sc,
      source_url = (case hit_source_url hit of None \<Rightarrow> [] | Some u \<Rightarrow> u),
      chunk_index = (case hit_chunk_index hit of None \<Rightarrow> 0 | Some i \<Rightarrow> i)\<rparr>"

text \<open>\<open>result.get("@search.score", 0)\<close>\<close>

definition search_score :: "search_hit \<Rightarrow> real" where
  "search_score hit = (case hit_score hit of None \<Rightarrow> 0 | Some x \<Rightarrow> x)"

text \<open>
  The \<open>for result in results\<close> loop of \<open>search\<close>: rows under the threshold are
  skipped, and the loop stops once \<open>top_k\<close> results have been collected.
\<close>

fun collect_results ::
  "real \<Rightarrow> int \<Rightarrow> search_hit list \<Rightarrow> RetrievalResult list \<Rightarrow> RetrievalResult list" where
  "collect_results min_score top_k [] retrieval_results = retrieval_results"
| "collect_results min_score top_k (hit # hits) retrieval_results =
     (let sc = search_score hit in
      if sc < min_score then collect_results min_score top_k hits retrieval_results
      else
        (let retrieval_results' = retrieval_results @ [to_result hit sc] in
         if int (length retrieval_results') \<ge> top_k then retrieval_results'
         else collect_results min_score top_k hits retrieval_results'))"

definition search_query :: "pystr \<Rightarrow> vector \<Rightarrow> int \<Rightarrow> pystr option \<Rightarrow> search_request" where
  "search_query query query_vector top_k document_filter =
     \<lparr>search_text = query,
      vector_query = Some (query_vector, top_k * 2),
      filter_expr = (case document_filter of
                       None \<Rightarrow> None
                     | Some f \<Rightarrow> if f = [] then None else Some (DocumentNameEq f)),
      top_count = Some (top_k * 2)\<rparr>"

definition search ::
  "retriever \<Rightarrow> pystr \<Rightarrow> int \<Rightarrow> real \<Rightarrow> pystr option \<Rightarrow> error + RetrievalResult list" where
  "search r query top_k min_score document_filter =
     (case generate_embedding (embeddings r) query of
        Inl e \<Rightarrow> Inl e
      | Inr query_vector \<Rightarrow>
          (case search_client r (search_query query query_vector top_k document_filter) of
             Inl e \<Rightarrow> Inl e
           | Inr results \<Rightarrow> Inr (collect_results min_score top_k results [])))"

text \<open>
  \<open>docs_chunks\<close>: a dict from document name to the list of its chunk indices, in
  insertion order.
\<close>

fun add_chunk :: "pystr \<Rightarrow> int \<Rightarrow> (pystr \<times> int list) list \<Rightarrow> (pystr \<times> int list) list" where
  "add_chunk doc_name idx [] = [(doc_name, [idx])]"
| "add_chunk doc_name idx ((n, idxs) # rest) =
     (if n = doc_name then (n, idxs @ [idx]) # rest else (n, idxs) # add_chunk doc_name idx rest)"

definition group_by_document :: "RetrievalResult list \<Rightarrow> (pystr \<times> int list) list" where
  "group_by_document results =
     foldl (\<lambda>docs_chunks result. add_chunk (document_name result) (chunk_index result) docs_chunks)
       [] results"

text \<open>\<open>range(-context_chunks, context_chunks + 1)\<close> is \<open>[- context_chunks..context_chunks]\<close>.\<close>

definition additional_indices :: "int \<Rightarrow> int list \<Rightarrow> int set" where
  "additional_indices context_chunks chunk_indices =
     set (filter (\<lambda>new_idx. new_idx \<ge> 0 \<and> new_idx \<notin> set chunk_indices)
            (concat (map (\<lambda>idx. map (\<lambda>offset. idx + offset) [- context_chunks..context_chunks])
                       chunk_indices)))"

definition context_query :: "pystr \<Rightarrow> int set \<Rightarrow> search_request" where
  "context_query doc_name idxs =
     \<lparr>search_text = py ''*'', vector_query = None,
      filter_expr = Some (DocumentNameAndChunkIndexIn doc_name idxs), top_count = None\<rparr>"

text \<open>The loop over \<open>docs_chunks.items()\<close>; neighbours get the score 0.5.\<close>

fun expand_results ::
  "retriever \<Rightarrow> int \<Rightarrow> (pystr \<times> int list) list \<Rightarrow> RetrievalResult list \<Rightarrow>
   error + RetrievalResult list" where
  "expand_results r context_chunks [] expanded_results = Inr expanded_results"
| "expand_results r context_chunks ((doc_name, chunk_indices) # rest) expanded_results =
     (let additional = additional_indices context_chunks chunk_indices in
      if additional \<noteq> {} then
        (case search_client r (context_query doc_name additional) of
           Inl e \<Rightarrow> Inl e
         | Inr additional_results \<Rightarrow>
             expand_results r context_chunks rest
               (expanded_results @ map (\<lambda>hit. to_result hit 0.5) additional_results))
      else expand_results r context_chunks rest expanded_results)"

text \<open>The sort key \<open>(x.document_name, x.chunk_index)\<close>; strings compare by code point.\<close>

definition reading_key :: "RetrievalResult \<Rightarrow> pystr \<times> int" where
  "reading_key x = (document_name x, chunk_index x)"

definition search_with_context ::
  "retriever \<Rightarrow> pystr \<Rightarrow> int \<Rightarrow> int \<Rightarrow> error + RetrievalResult list" where
  "search_with_context r query top_k context_chunks =
     (case search r query top_k 0.7 None of
        Inl e \<Rightarrow> Inl e
      | Inr results \<Rightarrow>
          if results = [] \<or> context_chunks = 0 then Inr results
          else
            (case expand_results r context_chunks (group_by_document results) results of
               Inl e \<Rightarrow> Inl e
             | Inr expanded_results \<Rightarrow> Inr (sort_key reading_key expanded_results)))"

section \<open>Indexing (\<open>DocumentIndexer\<close>)\<close>

type_synonym bytes = "nat list"

text \<open>
  \<open>SharePointDocument\<close>, with the fields the indexer reads (\<open>id\<close> and \<open>name\<close> are
  \<open>doc_id\<close> and \<open>doc_name\<close>).
\<close>

record SharePointDocument =
  doc_id :: pystr
  doc_name :: pystr
  web_url :: pystr
  download_url :: pystr
  mime_type :: pystr

definition is_pdf :: "SharePointDocument \<Rightarrow> bool" where
  "is_pdf d \<longleftrightarrow> mime_type d = py ''application/pdf''"

definition is_docx :: "SharePointDocument \<Rightarrow> bool" where
  "is_docx d \<longleftrightarrow>
     mime_type d = py ''application/vnd.openxmlformats-officedocument.wordprocessingml.document'' \<or>
     mime_type d = py ''application/msword''"

definition is_supported :: "SharePointDocument \<Rightarrow> bool" where
  "is_supported d \<longleftrightarrow> is_pdf d \<or> is_docx d"

text \<open>One dict of \<open>documents_to_index\<close>, which is also one record of the index.\<close>

record index_row =
  row_id :: pystr
  row_document_id :: pystr
  row_document_name :: pystr
  row_chunk_index :: int
  row_content :: pystr
  row_content_vector :: vector
  row_created_at :: pystr
  row_source_url :: pystr

text \<open>
  The search index behind \<open>search_client\<close>: its records, and the log of the
  \<open>delete_documents\<close> calls it has received (the list of ids of each call).
\<close>

record search_index =
  rows :: "index_row list"
  delete_calls :: "pystr list list"

text \<open>
  Modelled from the spec: the vector store is a collaborator outside the repository.
  \<open>VectorStore.upsert\<close> is insert-or-replace by chunk id.
\<close>

fun upsert :: "index_row \<Rightarrow> index_row list \<Rightarrow> index_row list" where
  "upsert d [] = [d]"
| "upsert d (x # xs) = (if row_id x = row_id d then d # xs else x # upsert d xs)"

text \<open>
  The indexer's collaborators, as parameters: the embedder; the SharePoint download;
  the two text extractors (each catches every exception of its reader and returns
  the empty string then) and UTF-8 decoding (\<open>None\<close> is \<open>UnicodeDecodeError\<close>);
  \<open>hashlib.sha256(b).hexdigest()\<close>, as a function of the string whose encoding \<open>b\<close>
  is; the clock, already formatted; and the search service: whether an upload raises
  and which records it accepts, what a search with a filter text returns from the
  records of the index, and whether the other calls raise.
\<close>

record indexer =
  idx_embeddings :: embedder
  download_document :: "SharePointDocument \<Rightarrow> error + bytes"
  extract_text_from_pdf :: "bytes \<Rightarrow> pystr"
  extract_text_from_docx :: "bytes \<Rightarrow> pystr"
  decode_utf8 :: "bytes \<Rightarrow> pystr option"
  sha256_hexdigest :: "pystr \<Rightarrow> pystr"
  utcnow_isoformat :: pystr
  upload_fault :: "index_row list \<Rightarrow> error option"
  upload_accepts :: "index_row \<Rightarrow> bool"
  filter_search :: "pystr \<Rightarrow> index_row list \<Rightarrow> error + index_row list"
  delete_fault :: "error option"
  get_index_fault :: "error option"
  create_index_fault :: "error option"
  list_documents :: "error + SharePointDocument list"

definition extract_text :: "indexer \<Rightarrow> SharePointDocument \<Rightarrow> bytes \<Rightarrow> pystr" where
  "extract_text ix document content_bytes =
     (if is_pdf document then extract_text_from_pdf ix content_bytes
      else if is_docx document then extract_text_from_docx ix content_bytes
      else (case decode_utf8 ix content_bytes of Some text \<Rightarrow> text | None \<Rightarrow> []))"

text \<open>\<open>str(i)\<close> for a non-negative integer: its decimal digits.\<close>

fun str_nat :: "nat \<Rightarrow> pystr" where
  "str_nat n = (if n < 10 then [48 + n] else str_nat (n div 10) @ [48 + n mod 10])"

declare str_nat.simps [simp del]

text \<open>
  \<open>s.encode()\<close> is UTF-8 encoding: it raises \<open>UnicodeEncodeError\<close> when \<open>s\<close> holds a
  surrogate code point (U+D800 to U+DFFF), and only then.
\<close>

definition is_surrogate :: "codepoint \<Rightarrow> bool" where
  "is_surrogate c \<longleftrightarrow> 55296 \<le> c \<and> c \<le> 57343"

definition encodable :: "pystr \<Rightarrow> bool" where
  "encodable s \<longleftrightarrow> \<not> list_ex is_surrogate s"

text \<open>The string \<open>f"{document.id}_{i}_{chunk[:100]}"\<close>.\<close>

definition id_source :: "pystr \<Rightarrow> nat \<Rightarrow> pystr \<Rightarrow> pystr" where
  "id_source document_id i chunk = document_id @ py ''_'' @ str_nat i @ py ''_'' @ take 100 chunk"

text \<open>
  \<open>hashlib.sha256(f"{document.id}_{i}_{chunk[:100]}".encode()).hexdigest()[:32]\<close>
\<close>

definition chunk_id :: "indexer \<Rightarrow> pystr \<Rightarrow> nat \<Rightarrow> pystr \<Rightarrow> error + pystr" where
  "chunk_id ix document_id i chunk =
     (if encodable (id_source document_id i chunk)
      then Inr (take 32 (sha256_hexdigest ix (id_source document_id i chunk)))
      else Inl UnicodeEncodeError)"

text \<open>
  The loop over \<open>enumerate(zip(chunks, embeddings))\<close> that fills \<open>documents_to_index\<close>;
  it stops at the first id that cannot be computed.
\<close>

fun build_documents ::
  "indexer \<Rightarrow> SharePointDocument \<Rightarrow> (nat \<times> pystr \<times> vector) list \<Rightarrow> index_row list \<Rightarrow>
   error + index_row list" where
  "build_documents ix document [] acc = Inr acc"
| "build_documents ix document ((i, chunk, vec) # rest) acc =
     (case chunk_id ix (doc_id document) i chunk of
        Inl e \<Rightarrow> Inl e
      | Inr cid \<Rightarrow>
          build_documents ix document rest
            (acc @ [\<lparr>row_id = cid,
                     row_document_id = doc_id document,
                     row_document_name = doc_name document,
                     row_chunk_index = int i,
                     row_content = chunk,
                     row_content_vector = vec,
                     row_created_at = utcnow_isoformat ix @ py ''Z'',
                     row_source_url = web_url document\<rparr>]))"

definition documents_to_index ::
  "indexer \<Rightarrow> SharePointDocument \<Rightarrow> pystr list \<Rightarrow> vector list \<Rightarrow> error + index_row list" where
  "documents_to_index ix document chunks vectors =
     build_documents ix document (zip [0..<length chunks] (zip chunks vectors)) []"

text \<open>
  \<open>search_client.upload_documents\<close>: it raises, or it returns one success flag for
  each record and has stored the accepted ones.
\<close>

definition upload_documents ::
  "indexer \<Rightarrow> search_index \<Rightarrow> index_row list \<Rightarrow> (error + bool list) \<times> search_index" where
  "upload_documents ix store docs =
     (case upload_fault ix docs of
        Some e \<Rightarrow> (Inl e, store)
      | None \<Rightarrow>
          (Inr (map (upload_accepts ix) docs),
           store\<lparr>rows := foldl (\<lambda>rs d. if upload_accepts ix d then upsert d rs else rs)
                            (rows store) docs\<rparr>))"

text \<open>\<open>index_document\<close> from the embedding step on.\<close>

definition index_chunks ::
  "indexer \<Rightarrow> SharePointDocument \<Rightarrow> pystr list \<Rightarrow> search_index \<Rightarrow>
   (error + nat) \<times> search_index" where
  "index_chunks ix document chunks store =
     (case generate_embeddings_batch (idx_embeddings ix) chunks 100 of
        Inl e \<Rightarrow> (Inl e, store)
      | Inr vectors \<Rightarrow>
          (case documents_to_index ix document chunks vectors of
             Inl e \<Rightarrow> (Inl e, store)
           | Inr docs \<Rightarrow>
               (case upload_documents ix store docs of
                  (Inl e, store') \<Rightarrow> (Inl e, store')
                | (Inr result, store') \<Rightarrow>
                    (Inr (length (filter (\<lambda>succeeded. succeeded) result)), store'))))"

text \<open>
  \<open>index_document\<close>: the exception or the number of chunks indexed, and the index
  afterwards. \<open>None\<close> would be a chunker that does not return.
\<close>

definition index_document ::
  "indexer \<Rightarrow> SharePointDocument \<Rightarrow> search_index \<Rightarrow> ((error + nat) \<times> search_index) option" where
  "index_document ix document store =
     (case download_document ix document of
        Inl e \<Rightarrow> Some (Inl e, store)
      | Inr content_bytes \<Rightarrow>
          (let text = extract_text ix document content_bytes in
           if text = [] then Some (Inr 0, store)
           else
             (case chunk_text text of
                None \<Rightarrow> None
              | Some chunks \<Rightarrow>
                  if chunks = [] then Some (Inr 0, store)
                  else Some (index_chunks ix document chunks store))))"

definition ensure_index_exists :: "indexer \<Rightarrow> error + unit" where
  "ensure_index_exists ix =
     (case get_index_fault ix of
        None \<Rightarrow> Inr ()
      | Some _ \<Rightarrow> (case create_index_fault ix of None \<Rightarrow> Inr () | Some e \<Rightarrow> Inl e))"

text \<open>
  The \<open>for doc in supported_docs\<close> loop with its \<open>try\<close>/\<open>except Exception\<close>;
  \<open>results\<close> is the dict from document name to chunk count.
\<close>

fun index_loop ::
  "indexer \<Rightarrow> SharePointDocument list \<Rightarrow> (pystr \<rightharpoonup> nat) \<Rightarrow> search_index \<Rightarrow>
   ((pystr \<rightharpoonup> nat) \<times> search_index) option" where
  "index_loop ix [] results store = Some (results, store)"
| "index_loop ix (doc # docs) results store =
     (case index_document ix doc store of
        None \<Rightarrow> None
      | Some (Inr chunk_count, store') \<Rightarrow>
          index_loop ix docs (results(doc_name doc \<mapsto> chunk_count)) store'
      | Some (Inl e, store') \<Rightarrow> index_loop ix docs (results(doc_name doc \<mapsto> 0)) store')"

definition index_all_documents ::
  "indexer \<Rightarrow> search_index \<Rightarrow> ((error + (pystr \<rightharpoonup> nat)) \<times> search_index) option" where
  "index_all_documents ix store =
     (case ensure_index_exists ix of
        Inl e \<Rightarrow> Some (Inl e, store)
      | Inr _ \<Rightarrow>
          (case list_documents ix of
             Inl e \<Rightarrow> Some (Inl e, store)
           | Inr documents \<Rightarrow>
               (let supported_docs = filter is_supported documents in
                case index_loop ix supported_docs Map.empty store of
                  None \<Rightarrow> None
                | Some (results, store') \<Rightarrow> Some (Inr results, store'))))"

text \<open>The filter text \<open>f"document_id eq '{document_id}'"\<close>; 39 is the quote character.\<close>

definition document_id_filter :: "pystr \<Rightarrow> pystr" where
  "document_id_filter document_id = py ''document_id eq '' @ [39] @ document_id @ [39]"

text \<open>
  \<open>delete_document_chunks\<close>. The search service is given the filter text as the code
  builds it, with the argument pasted in unchanged, and what the service makes of
  that text is the parameter \<open>filter_search\<close>. Modelled from the spec:
  \<open>VectorStore.delete(ids)\<close> removes the records with these ids. A delete call is
  logged when it is issued, whether or not it raises.
\<close>

definition delete_document_chunks ::
  "indexer \<Rightarrow> search_index \<Rightarrow> pystr \<Rightarrow> (error + nat) \<times> search_index" where
  "delete_document_chunks ix store document_id =
     (case filter_search ix (document_id_filter document_id) (rows store) of
        Inl e \<Rightarrow> (Inl e, store)
      | Inr found \<Rightarrow>
          (let chunk_ids = map row_id found in
           if chunk_ids \<noteq> [] then
             (case delete_fault ix of
                Some e \<Rightarrow> (Inl e, store\<lparr>delete_calls := delete_calls store @ [chunk_ids]\<rparr>)
              | None \<Rightarrow>
                  (Inr (length chunk_ids),
                   store\<lparr>rows := filter (\<lambda>r. row_id r \<notin> set chunk_ids) (rows store),
                         delete_calls := delete_calls store @ [chunk_ids]\<rparr>))
           else (Inr (length chunk_ids), store)))"

section \<open>Scenarios\<close>

text \<open>The text \<open>"A. " * 500\<close> of the chunking scenario.\<close>

definition a500 :: pystr where
  "a500 = concat (replicate 500 (py ''A. ''))"

text \<open>
  The code point at position \<open>i\<close> of that text, and the stretch of it from position
  \<open>a\<close> up to \<open>b\<close>.
\<close>

definition period3 :: "nat \<Rightarrow> codepoint" where
  "period3 i = [65, 46, 32] ! (i mod 3)"

definition tile :: "nat \<Rightarrow> nat \<Rightarrow> pystr" where
  "tile a b = map period3 [a..<b]"

text \<open>
  A well-formed answer of the embedding service to a batch, in request order: one
  item for each input, carrying the request-local index of the input and the vector
  \<open>e\<close> assigns to its text.
\<close>

definition indexed_response :: "(pystr \<Rightarrow> vector) \<Rightarrow> pystr list \<Rightarrow> embedding_item list" where
  "indexed_response e batch =
     map (\<lambda>(j, text). \<lparr>index = int j, embedding = e text\<rparr>) (zip [0..<length batch] batch)"

text \<open>
  The service may reorder: each answer is some permutation of the well-formed one.
\<close>

definition answers_permuted ::
  "(pystr list \<Rightarrow> error + embedding_item list) \<Rightarrow> (pystr \<Rightarrow> vector) \<Rightarrow> bool" where
  "answers_permuted create e \<longleftrightarrow>
     (\<forall>batch. \<exists>data. create batch = Inr data \<and> mset data = mset (indexed_response e batch))"

text \<open>
  An embedder for the scenarios: tokens are code points, the vector of a text is its
  length, and every batch is answered in reverse order.
\<close>

definition length_vector :: "pystr \<Rightarrow> vector" where
  "length_vector text = [real (length text)]"

definition reversing_embedder :: embedder where
  "reversing_embedder =
     \<lparr>encode = (\<lambda>text. text), decode = (\<lambda>tokens. tokens), dimensions = 1,
      embeddings_create = (\<lambda>attempt batch. Inr (rev (indexed_response length_vector batch)))\<rparr>"

text \<open>
  A retriever for the scenarios. Its search service ranks four chunks of the documents
  \<open>A\<close> and \<open>B\<close> for every query, and answers a neighbour lookup with the chunks 0 to
  3 of the document that are asked for.
\<close>

definition mk_hit :: "string \<Rightarrow> int \<Rightarrow> real \<Rightarrow> search_hit" where
  "mk_hit doc i sc =
     \<lparr>hit_id = py doc @ py ''-'' @ str_nat (nat i), hit_document_name = py doc,
      hit_content = py ''text'', hit_source_url = Some (py ''https://sp/'' @ py doc),
      hit_chunk_index = Some i, hit_score = Some sc\<rparr>"

definition ranked_hits :: "search_hit list" where
  "ranked_hits = [mk_hit ''B'' 2 0.9, mk_hit ''A'' 2 0.8, mk_hit ''A'' 0 0.75, mk_hit ''B'' 0 0.6]"

definition ranked_retriever :: retriever where
  "ranked_retriever =
     \<lparr>embeddings = reversing_embedder,
      search_client = (\<lambda>request.
        case filter_expr request of
          None \<Rightarrow> Inr ranked_hits
        | Some (DocumentNameEq n) \<Rightarrow> Inr (filter (\<lambda>h. hit_document_name h = n) ranked_hits)
        | Some (DocumentNameAndChunkIndexIn n idxs) \<Rightarrow>
            Inr (map (\<lambda>i. mk_hit (if n = py ''A'' then ''A'' else ''B'') i 1) (filter (\<lambda>i. i \<in> idxs) [0, 1, 2, 3])))\<rparr>"

text \<open>The two results of the scenario query above the default threshold.\<close>

definition result_B2 :: RetrievalResult where
  "result_B2 = to_result (mk_hit ''B'' 2 0.9) 0.9"

definition result_A2 :: RetrievalResult where
  "result_A2 = to_result (mk_hit ''A'' 2 0.8) 0.8"

definition context_window :: "RetrievalResult list" where
  "context_window =
     [to_result (mk_hit ''A'' 1 1) 0.5, result_A2, to_result (mk_hit ''A'' 3 1) 0.5,
      to_result (mk_hit ''B'' 1 1) 0.5, result_B2, to_result (mk_hit ''B'' 3 1) 0.5]"

text \<open>
  A search service for the scenarios, which reads a filter text as OData does, for
  the part of the language these filters use: a comparison is \<open>document_id eq '...'\<close>
  or \<open>document_id ne '...'\<close>, comparisons are joined by \<open>or\<close>, and inside a string
  literal two quote characters stand for one quote. The service answers with the
  records that satisfy the filter, and with an error for any other text.
\<close>

fun odata_literal :: "pystr \<Rightarrow> pystr \<Rightarrow> (pystr \<times> pystr) option" where
  "odata_literal lit [] = None"
| "odata_literal lit (c # cs) =
     (if c \<noteq> 39 then odata_literal (lit @ [c]) cs
      else (case cs of
              [] \<Rightarrow> Some (lit, [])
            | c' # cs' \<Rightarrow> if c' = 39 then odata_literal (lit @ [39]) cs' else Some (lit, cs)))"

definition after_prefix :: "pystr \<Rightarrow> pystr \<Rightarrow> pystr option" where
  "after_prefix p s = (if take (length p) s = p then Some (drop (length p) s) else None)"

definition odata_comparison :: "pystr \<Rightarrow> ((index_row \<Rightarrow> bool) \<times> pystr) option" where
  "odata_comparison s =
     (case after_prefix (py ''document_id eq '' @ [39]) s of
        Some rest \<Rightarrow>
          (case odata_literal [] rest of
             None \<Rightarrow> None
           | Some (lit, tail) \<Rightarrow> Some (\<lambda>r. row_document_id r = lit, tail))
      | None \<Rightarrow>
          (case after_prefix (py ''document_id ne '' @ [39]) s of
             Some rest \<Rightarrow>
               (case odata_literal [] rest of
                  None \<Rightarrow> None
                | Some (lit, tail) \<Rightarrow> Some (\<lambda>r. row_document_id r \<noteq> lit, tail))
           | None \<Rightarrow> None))"

text \<open>A filter of at most \<open>n\<close> comparisons.\<close>

fun odata_or :: "nat \<Rightarrow> pystr \<Rightarrow> (index_row \<Rightarrow> bool) option" where
  "odata_or 0 s = None"
| "odata_or (Suc n) s =
     (case odata_comparison s of
        None \<Rightarrow> None
      | Some (test, tail) \<Rightarrow>
          if tail = [] then Some test
          else (case after_prefix (py '' or '') tail of
                  None \<Rightarrow> None
                | Some further \<Rightarrow>
                    (case odata_or n further of
                       None \<Rightarrow> None
                     | Some test' \<Rightarrow> Some (\<lambda>r. test r \<or> test' r))))"

definition odata_search :: "pystr \<Rightarrow> index_row list \<Rightarrow> error + index_row list" where
  "odata_search filter_text stored =
     (case odata_or (length filter_text) filter_text of
        None \<Rightarrow> Inl HttpResponseError
      | Some test \<Rightarrow> Inr (filter test stored))"

text \<open>
  An indexer for the scenarios. The digest stands in for SHA-256: 64 characters
  determined by the input. The PDF \<open>handbook.pdf\<close> extracts to a one-sentence text;
  the download of \<open>broken.doc\<close> fails. The upload accepts every record.
\<close>

definition demo_digest :: "pystr \<Rightarrow> pystr" where
  "demo_digest s = take 64 (s @ replicate 64 48)"

definition handbook :: SharePointDocument where
  "handbook =
     \<lparr>doc_id = py ''d1'', doc_name = py ''handbook.pdf'', web_url = py ''https://sp/handbook.pdf'',
      download_url = py ''https://dl/handbook'', mime_type = py ''application/pdf''\<rparr>"

definition broken :: SharePointDocument where
  "broken =
     \<lparr>doc_id = py ''d2'', doc_name = py ''broken.doc'', web_url = py ''https://sp/broken.doc'',
      download_url = py ''https://dl/broken'', mime_type = py ''application/msword''\<rparr>"

definition leave_policy :: pystr where
  "leave_policy = py ''Leave policy.''"

definition demo_indexer :: indexer where
  "demo_indexer =
     \<lparr>idx_embeddings = reversing_embedder,
      download_document = (\<lambda>d. if doc_id d = py ''d2'' then Inl HTTPStatusError else Inr [37, 80, 68, 70]),
      extract_text_from_pdf = (\<lambda>content_bytes. leave_policy),
      extract_text_from_docx = (\<lambda>content_bytes. []),
      decode_utf8 = (\<lambda>content_bytes. None),
      sha256_hexdigest = demo_digest,
      utcnow_isoformat = py ''2024-01-01T00:00:00'',
      upload_fault = (\<lambda>docs. None),
      upload_accepts = (\<lambda>d. True),
      filter_search = odata_search,
      delete_fault = None,
      get_index_fault = None,
      create_index_fault = None,
      list_documents = Inr [broken, handbook]\<rparr>"

text \<open>The same indexer at a later time.\<close>

definition later_indexer :: indexer where
  "later_indexer = demo_indexer\<lparr>utcnow_isoformat := py ''2024-02-02T00:00:00''\<rparr>"

text \<open>The same indexer while the search service accepts no record.\<close>

definition rejecting_indexer :: indexer where
  "rejecting_indexer = demo_indexer\<lparr>upload_accepts := (\<lambda>d. False)\<rparr>"

definition empty_index :: search_index where
  "empty_index = \<lparr>rows = [], delete_calls = []\<rparr>"

text \<open>The index after \<open>handbook.pdf\<close> has been indexed once.\<close>

definition handbook_row :: index_row where
  "handbook_row =
     \<lparr>row_id = take 32 (demo_digest (id_source (py ''d1'') 0 leave_policy)),
      row_document_id = py ''d1'', row_document_name = py ''handbook.pdf'',
      row_chunk_index = 0, row_content = leave_policy, row_content_vector = [13],
      row_created_at = py ''2024-01-01T00:00:00Z'', row_source_url = py ''https://sp/handbook.pdf''\<rparr>"

definition indexed_once :: search_index where
  "indexed_once = \<lparr>rows = [handbook_row], delete_calls = []\<rparr>"

text \<open>An index holding two chunks of document \<open>d1\<close> and one of document \<open>d2\<close>.\<close>

definition mk_row :: "string \<Rightarrow> string \<Rightarrow> int \<Rightarrow> index_row" where
  "mk_row key did i =
     \<lparr>row_id = py key, row_document_id = py did, row_document_name = py did @ py ''.pdf'',
      row_chunk_index = i, row_content = py ''text'', row_content_vector = [4],
      row_created_at = py ''2024-01-01T00:00:00Z'', row_source_url = py ''https://sp/'' @ py did\<rparr>"

definition three_rows :: search_index where
  "three_rows =
     \<lparr>rows = [mk_row ''a0'' ''d1'' 0, mk_row ''b0'' ''d2'' 0, mk_row ''a1'' ''d1'' 1],
      delete_calls = []\<rparr>"

text \<open>
  A document id with quote characters in it: \<open>d9' or document_id ne 'd9\<close>. No record
  of the index above has it as its \<open>document_id\<close>.
\<close>

definition quoted_id :: pystr where
  "quoted_id = py ''d9'' @ [39] @ py '' or document_id ne '' @ [39] @ py ''d9''"

text \<open>Eleven letters without a space or a sentence end.\<close>

definition eleven_a :: pystr where
  "eleven_a = py ''aaaaaaaaaaa''"

section \<open>Properties of the chunker\<close>

lemma length_strip_le: "length (strip s) \<le> length s"
  unfolding strip_def
  by (metis length_dropWhile_le length_rev order_trans)

lemma rfind_from_range: "rfind_from s sub i = - 1 \<or> (0 \<le> rfind_from s sub i \<and> rfind_from s sub i \<le> int i)"
  by (induction i) auto

lemma rfind_range:
  "rfind s sub = - 1 \<or> (0 \<le> rfind s sub \<and> rfind s sub + int (length sub) \<le> int (length s))"
  using rfind_from_range [of s sub "length s - length sub"]
  by (auto simp: rfind_def)

lemma length_py_slice_le:
  "0 \<le> a \<Longrightarrow> 0 \<le> b \<Longrightarrow> int (length (py_slice s a b)) \<le> max 0 (b - a)"
  by (auto simp: py_slice_def slice_index_def Let_def)

lemma length_py_slice_from_le:
  "0 \<le> a \<Longrightarrow> int (length (py_slice_from s a)) \<le> max 0 (int (length s) - a)"
  by (auto simp: py_slice_from_def slice_index_def)

lemma sentence_break_range:
  "sentence_break ps st ss limit = - 1 \<or>
   (limit < sentence_break ps st ss limit \<and> sentence_break ps st ss limit \<le> ss + int (length st))"
proof (induction ps)
  case Nil
  then show ?case by simp
next
  case (Cons p ps)
  show ?case
    using Cons.IH rfind_range [of st p]
    by (auto simp: Let_def)
qed

lemma find_break_range:
  assumes "1 \<le> cs" and "0 \<le> start"
  shows "start + cs div 2 < find_break cs text start"
    and "find_break cs text start \<le> start + cs + 100"
proof -
  define ss where "ss = max (start + cs - 100) start"
  define se where "se = min (start + cs + 100) (int (length text))"
  define st where "st = py_slice text ss se"
  define bb where "bb = sentence_break sentence_patterns st ss (start + cs div 2)"
  define st2 where "st2 = py_slice text start (start + cs + 50)"
  define sp where "sp = rfind st2 [32]"
  have fb: "find_break cs text start =
      (if bb = - 1 then (if sp > cs div 2 then start + sp else start + cs) else bb)"
    by (simp add: find_break_def Let_def ss_def se_def st_def bb_def st2_def sp_def)
  have len_st: "int (length st) \<le> max 0 (se - ss)"
    unfolding st_def using assms by (intro length_py_slice_le) (auto simp: ss_def se_def)
  have len_st2: "int (length st2) \<le> cs + 50"
    using length_py_slice_le [of start "start + cs + 50" "text"] assms by (simp add: st2_def)
  have bb: "bb = - 1 \<or> (start + cs div 2 < bb \<and> bb \<le> ss + int (length st))"
    unfolding bb_def by (rule sentence_break_range)
  have sp: "sp = - 1 \<or> (0 \<le> sp \<and> sp + 1 \<le> int (length st2))"
    using rfind_range [of st2 "[32]"] by (simp add: sp_def)
  have half: "cs div 2 < cs" using assms by simp
  show "start + cs div 2 < find_break cs text start"
    using bb half by (auto simp: fb)
  have "ss + int (length st) \<le> start + cs + 100"
    using len_st assms by (auto simp: ss_def se_def)
  then show "find_break cs text start \<le> start + cs + 100"
    using bb sp len_st2 by (auto simp: fb)
qed

lemma next_start_progress:
  assumes "ov \<le> cs div 2" and "0 \<le> start" and "start + cs div 2 < bb"
  shows "start < next_start ov bb" and "next_start ov bb \<le> max bb (bb - ov)"
  using assms by (auto simp: next_start_def Let_def)

lemma chunk_loop_total:
  assumes cs: "1 \<le> cs" and ov: "ov \<le> cs div 2"
  shows "0 \<le> start \<Longrightarrow> \<forall>c\<in>set chunks. int (length c) \<le> cs + 100 \<Longrightarrow>
         \<exists>ys. chunk_loop cs ov text start chunks = Some ys \<and>
              (\<forall>c\<in>set ys. int (length c) \<le> cs + 100)"
proof (induction "nat (int (length text) - start)" arbitrary: start chunks rule: less_induct)
  case less
  show ?case
  proof (cases "start < int (length text)")
    case False
    then show ?thesis using less.prems by (subst chunk_loop.simps) simp
  next
    case inside: True
    show ?thesis
    proof (cases "int (length text) \<le> start + cs")
      case True
      have "int (length (strip (py_slice_from text start))) \<le> cs + 100"
        using length_strip_le [of "py_slice_from text start"]
          length_py_slice_from_le [of start "text"] less.prems(1) True cs by (simp add: max_def split: if_splits)
      then show ?thesis
        using inside True less.prems by (subst chunk_loop.simps) simp
    next
      case False
      define bb where "bb = find_break cs text start"
      define chunk where "chunk = strip (py_slice text start bb)"
      define chunks' where "chunks' = (if chunk \<noteq> [] then chunks @ [chunk] else chunks)"
      have bb: "start + cs div 2 < bb" "bb \<le> start + cs + 100"
        unfolding bb_def using find_break_range [OF cs less.prems(1)] by auto
      have adv: "start < next_start ov bb"
        using next_start_progress(1) [OF ov less.prems(1) bb(1)] .
      have "0 \<le> cs div 2" using cs by simp
      then have "0 \<le> bb" using bb(1) less.prems(1) by linarith
      then have "int (length (py_slice text start bb)) \<le> cs + 100"
        using length_py_slice_le [of start bb "text"] less.prems(1) bb cs
        by (simp add: max_def split: if_splits)
      then have "int (length chunk) \<le> cs + 100"
        using length_strip_le [of "py_slice text start bb"]
        unfolding chunk_def by linarith
      then have inv: "\<forall>c\<in>set chunks'. int (length c) \<le> cs + 100"
        using less.prems(2) by (simp add: chunks'_def)
      have "\<exists>ys. chunk_loop cs ov text (next_start ov bb) chunks' = Some ys \<and>
              (\<forall>c\<in>set ys. int (length c) \<le> cs + 100)"
        using adv inside less.prems(1) inv by (intro less.hyps) auto
      moreover have "chunk_loop cs ov text start chunks =
          chunk_loop cs ov text (next_start ov bb) chunks'"
        using inside False
        by (subst chunk_loop.simps) (simp add: Let_def bb_def chunk_def chunks'_def)
      ultimately show ?thesis by simp
    qed
  qed
qed

subsection \<open>The scenario text\<close>

lemma py_A: "py ''A. '' = [65, 46, 32]"
  by (simp add: py_def)

lemma sentence_patterns_eq:
  "sentence_patterns = [[46, 32], [46, 10], [63, 32], [63, 10], [33, 32], [33, 10], [10, 10]]"
  by (simp add: sentence_patterns_def py_def)

lemma concat_replicate3:
  "concat (replicate n [65, 46, 32]) = map period3 [0..<3 * n]"
proof (induction n)
  case 0
  show ?case by simp
next
  case (Suc n)
  have "replicate (Suc n) [65, 46, 32 :: nat] = replicate n [65, 46, 32] @ [[65, 46, 32]]"
    by (simp add: replicate_append_same)
  then have "concat (replicate (Suc n) [65, 46, 32 :: nat]) =
      concat (replicate n [65, 46, 32]) @ [65, 46, 32]"
    by (simp only: concat_append) simp
  moreover have "3 * Suc n = Suc (Suc (Suc (3 * n)))"
    by simp
  then have "[0..<3 * Suc n] = [0..<3 * n] @ [3 * n, 3 * n + 1, 3 * n + 2]"
    by (simp only: upt_Suc_append le0 le_SucI le_refl) simp
  moreover have "period3 (3 * n) = 65" "period3 (3 * n + 1) = 46" "period3 (3 * n + 2) = 32"
    by (simp_all add: period3_def mod_Suc)
  ultimately show ?case using Suc.IH by simp
qed

lemma sub_ws_replicate3:
  "sub_ws (concat (replicate n [65, 46, 32])) = concat (replicate n [65, 46, 32])"
proof (induction n)
  case 0
  show ?case by simp
next
  case (Suc n)
  have "dropWhile is_space (concat (replicate n [65, 46, 32])) = concat (replicate n [65, 46, 32])"
    by (cases n) (simp_all add: is_space_def)
  then show ?case using Suc.IH by (simp add: is_space_def)
qed

lemma strip_id:
  assumes "xs \<noteq> []" and "\<not> is_space (hd xs)" and "\<not> is_space (last xs)"
  shows "strip xs = xs"
proof -
  have "dropWhile is_space xs = xs"
    using assms(1,2) by (cases xs) simp_all
  moreover have "dropWhile is_space (rev xs) = rev xs"
    using assms(1,3) by (cases "rev xs") (simp_all add: last_rev [symmetric] hd_rev)
  ultimately show ?thesis by (simp add: strip_def)
qed

lemma strip_trailing:
  assumes "xs \<noteq> []" and "\<not> is_space (hd xs)" and "\<not> is_space (last xs)" and "is_space c"
  shows "strip (xs @ [c]) = xs"
proof -
  have "dropWhile is_space (xs @ [c]) = xs @ [c]"
    using assms(1,2) by (cases xs) simp_all
  moreover have "dropWhile is_space (rev xs) = rev xs"
    using assms(1,3) by (cases "rev xs") (simp_all add: hd_rev)
  ultimately show ?thesis using assms(4) by (simp add: strip_def)
qed

lemma period3_vals:
  "period3 0 = 65" "period3 898 = 46" "period3 1096 = 46" "period3 1097 = 32" "period3 1098 = 65"
  "period3 1099 = 46" "period3 1498 = 46" "period3 1499 = 32"
  by (simp_all add: period3_def)

lemma length_tile: "length (tile a b) = b - a"
  by (simp add: tile_def)

lemma drop_tile: "drop m (tile a b) = tile (a + m) b"
  by (simp add: tile_def drop_map)

lemma take_tile: "a + m \<le> b \<Longrightarrow> take m (tile a b) = tile a (a + m)"
  by (simp add: tile_def take_map take_upt)

lemma tile_snoc: "a \<le> b \<Longrightarrow> tile a (Suc b) = tile a b @ [period3 b]"
  by (simp add: tile_def)

lemma tile_two: "tile a (Suc (Suc a)) = [period3 a, period3 (Suc a)]"
  by (simp add: tile_def upt_rec [of a] upt_rec [of "Suc a"])

lemma tile_ends:
  assumes "a < b"
  shows "tile a b \<noteq> []" and "hd (tile a b) = period3 a" and "last (tile a b) = period3 (b - 1)"
  using assms by (simp_all add: tile_def hd_map last_map)

lemma py_slice_tile:
  assumes "0 \<le> a" and "a \<le> b" and "b \<le> int n"
  shows "py_slice (tile 0 n) a b = tile (nat a) (nat b)"
proof -
  have "slice_index n a = nat a" "slice_index n b = nat b"
    using assms by (auto simp: slice_index_def)
  moreover have "nat a + (nat b - nat a) = nat b" "nat b \<le> n"
    using assms by auto
  ultimately show ?thesis
    by (simp add: py_slice_def Let_def length_tile drop_tile take_tile)
qed

lemma py_slice_from_tile:
  assumes "0 \<le> a" and "a \<le> int n"
  shows "py_slice_from (tile 0 n) a = tile (nat a) n"
  using assms by (simp add: py_slice_from_def slice_index_def length_tile drop_tile)

lemma normalize_a500: "normalize a500 = tile 0 1499"
proof -
  have "sub_ws a500 = a500"
    by (simp add: a500_def py_A sub_ws_replicate3)
  moreover have "a500 = tile 0 (Suc 1499)"
    by (simp add: a500_def py_A concat_replicate3 tile_def del: upt_rec_numeral)
  then have "a500 = tile 0 1499 @ [32]"
    by (simp only: tile_snoc le0 period3_vals)
  moreover have "strip (tile 0 1499 @ [32]) = tile 0 1499"
    by (rule strip_trailing) (simp_all add: tile_ends period3_vals is_space_def)
  ultimately show ?thesis by (simp add: normalize_def)
qed

lemma rfind_from_unfold:
  "rfind_from s sub i =
     (if take (length sub) (drop i s) = sub then int i
      else if i = 0 then - 1 else rfind_from s sub (i - 1))"
  by (cases i) simp_all

lemma take2_drop_tile:
  assumes "a + k + 2 \<le> b"
  shows "take (Suc (Suc 0)) (drop k (tile a b)) = [period3 (a + k), period3 (Suc (a + k))]"
proof -
  have "take (Suc (Suc 0)) (tile (a + k) b) = tile (a + k) (a + k + Suc (Suc 0))"
    using assms by (intro take_tile) simp
  then show ?thesis
    by (simp add: drop_tile tile_two)
qed

lemma rfind_window: "rfind (tile 900 1100) [46, 32] = 196"
proof -
  have r196: "rfind_from (tile 900 1100) [46, 32] 196 = 196"
    by (subst rfind_from_unfold) (simp add: take2_drop_tile period3_vals)
  have r197: "rfind_from (tile 900 1100) [46, 32] 197 = 196"
    by (subst rfind_from_unfold) (simp add: take2_drop_tile period3_vals r196)
  have r198: "rfind_from (tile 900 1100) [46, 32] 198 = 196"
    by (subst rfind_from_unfold) (simp add: take2_drop_tile period3_vals r197)
  then show ?thesis by (simp add: rfind_def length_tile)
qed

lemma find_break_a500: "find_break CHUNK_SIZE (normalize a500) 0 = 1098"
proof -
  have "py_slice (tile 0 1499) 900 1100 = tile 900 1100"
    using py_slice_tile [of 900 1100 1499] by simp
  moreover have "sentence_break sentence_patterns (tile 900 1100) 900 500 = 1098"
    by (simp add: sentence_patterns_eq rfind_window)
  ultimately show ?thesis
    by (simp add: find_break_def CHUNK_SIZE_def normalize_a500 length_tile)
qed

lemma first_chunk_a500: "strip (py_slice (tile 0 1499) 0 1098) = tile 0 1097"
proof -
  have "py_slice (tile 0 1499) 0 1098 = tile 0 (Suc 1097)"
    using py_slice_tile [of 0 1098 1499] by simp
  then have "py_slice (tile 0 1499) 0 1098 = tile 0 1097 @ [32]"
    by (simp only: tile_snoc le0 period3_vals)
  moreover have "strip (tile 0 1097 @ [32]) = tile 0 1097"
    by (rule strip_trailing) (simp_all add: tile_ends period3_vals is_space_def)
  ultimately show ?thesis by simp
qed

lemma last_chunk_a500: "strip (py_slice_from (tile 0 1499) 898) = tile 898 1499"
proof -
  have "py_slice_from (tile 0 1499) 898 = tile 898 1499"
    using py_slice_from_tile [of 898 1499] by simp
  moreover have "strip (tile 898 1499) = tile 898 1499"
    by (rule strip_id) (simp_all add: tile_ends period3_vals is_space_def)
  ultimately show ?thesis by simp
qed

lemma chunk_text_a500:
  "chunk_text a500 = Some [take 1097 (normalize a500), drop 898 (normalize a500)]"
proof -
  have ne: "tile 0 1097 \<noteq> []"
    by (simp add: tile_ends)
  have step2: "chunk_loop 1000 200 (tile 0 1499) 898 [tile 0 1097] =
      Some [tile 0 1097, tile 898 1499]"
    by (subst chunk_loop.simps) (simp add: last_chunk_a500 length_tile)
  have fb: "find_break 1000 (tile 0 1499) 0 = 1098"
    using find_break_a500 by (simp add: CHUNK_SIZE_def normalize_a500)
  have step1: "chunk_loop 1000 200 (tile 0 1499) 0 [] =
      chunk_loop 1000 200 (tile 0 1499) 898 [tile 0 1097]"
    by (subst chunk_loop.simps) (simp add: fb first_chunk_a500 next_start_def length_tile ne)
  have "take 1097 (tile 0 1499) = tile 0 1097" "drop 898 (tile 0 1499) = tile 898 1499"
    by (simp_all add: take_tile drop_tile)
  then show ?thesis
    using step1 step2
    by (simp add: chunk_text_def chunk_text_with_def CHUNK_SIZE_def CHUNK_OVERLAP_def
        normalize_a500 length_tile)
qed

lemma length_normalize_a500: "length (normalize a500) = 1499"
  by (simp add: normalize_a500 length_tile)

lemma sentence_end_a500: "take 2 (drop 1096 (normalize a500)) = py ''. ''"
  using take2_drop_tile [of 0 1096 1499]
  by (simp add: normalize_a500 period3_vals py_def numeral_2_eq_2)

subsection \<open>Chunk length and termination\<close>

lemma chunk_text_total:
  "\<exists>chunks. chunk_text raw = Some chunks \<and> (\<forall>c\<in>set chunks. int (length c) \<le> CHUNK_SIZE + 100)"
proof (cases "int (length (normalize raw)) \<le> CHUNK_SIZE")
  case True
  then show ?thesis
    by (simp add: chunk_text_def chunk_text_with_def Let_def)
next
  case False
  have "\<exists>ys. chunk_loop CHUNK_SIZE CHUNK_OVERLAP (normalize raw) 0 [] = Some ys \<and>
          (\<forall>c\<in>set ys. int (length c) \<le> CHUNK_SIZE + 100)"
    by (rule chunk_loop_total) (simp_all add: CHUNK_SIZE_def CHUNK_OVERLAP_def)
  then show ?thesis
    using False by (simp add: chunk_text_def chunk_text_with_def Let_def)
qed

text \<open>
  C4. With the configured parameters (target size 1000, overlap 200), \<open>chunk_text\<close>
  returns for every input text, and every chunk it returns has at most
  \<open>CHUNK_SIZE + 100 = 1100\<close> characters, whichever branch produced it: a sentence
  boundary, the last space, the hard cut, or the final chunk.
\<close>

theorem chunk_text_chunk_length:
  "\<exists>chunks. chunk_text raw = Some chunks \<and>
     (\<forall>c\<in>set chunks. int (length c) \<le> CHUNK_SIZE + 100)"
  by (rule chunk_text_total)

theorem chunk_text_chunk_length_witness:
  "chunk_text a500 = Some [take 1097 (normalize a500), drop 898 (normalize a500)] \<and>
   int (length (take 1097 (normalize a500))) \<le> CHUNK_SIZE + 100 \<and>
   int (length (drop 898 (normalize a500))) \<le> CHUNK_SIZE + 100"
  using chunk_text_chunk_length [of a500] chunk_text_a500 by auto

text \<open>
  C5. For every input string \<open>chunk_text\<close> terminates and returns a list of chunks.
  At every window start the chosen break position lies past the midpoint of the
  target window, and the next window start, after the overlap has been subtracted,
  is strictly greater than the current one.
\<close>

theorem chunk_text_terminates:
  "(\<exists>chunks. chunk_text raw = Some chunks) \<and>
   (\<forall>start\<ge>0.
      start + CHUNK_SIZE div 2 < find_break CHUNK_SIZE (normalize raw) start \<and>
      start < next_start CHUNK_OVERLAP (find_break CHUNK_SIZE (normalize raw) start))"
proof (intro conjI allI impI)
  show "\<exists>chunks. chunk_text raw = Some chunks"
    using chunk_text_total [of raw] by blast
next
  fix start :: int
  assume "0 \<le> start"
  then show "start + CHUNK_SIZE div 2 < find_break CHUNK_SIZE (normalize raw) start"
    by (intro find_break_range) (simp_all add: CHUNK_SIZE_def)
next
  fix start :: int
  assume nonneg: "0 \<le> start"
  then have "start + CHUNK_SIZE div 2 < find_break CHUNK_SIZE (normalize raw) start"
    by (intro find_break_range) (simp_all add: CHUNK_SIZE_def)
  with nonneg show "start < next_start CHUNK_OVERLAP (find_break CHUNK_SIZE (normalize raw) start)"
    by (intro next_start_progress(1) [where cs = CHUNK_SIZE])
       (simp_all add: CHUNK_SIZE_def CHUNK_OVERLAP_def)
qed

theorem chunk_text_terminates_witness:
  "(\<exists>chunks. chunk_text a500 = Some chunks) \<and> (0 :: int) \<le> 0 \<and>
   0 + CHUNK_SIZE div 2 < find_break CHUNK_SIZE (normalize a500) 0 \<and>
   0 < next_start CHUNK_OVERLAP (find_break CHUNK_SIZE (normalize a500) 0)"
  using chunk_text_terminates [of a500] by force

subsection \<open>Overlap not below the target size\<close>

lemma find_break_eleven_a: "find_break 10 eleven_a 0 = 10"
  by (simp add: find_break_def eleven_a_def py_def sentence_patterns_def py_slice_def
      slice_index_def rfind_def)

lemma chunk_loop_eleven_a_no_result:
  assumes "chunk_loop cs ov t start chunks = Some ys"
  shows "\<not> (cs = 10 \<and> ov = 10 \<and> t = eleven_a \<and> start = 0)"
proof (rule chunk_loop.raw_induct
    [where P = "\<lambda>cs ov t start chunks ys. \<not> (cs = 10 \<and> ov = 10 \<and> t = eleven_a \<and> start = 0)",
      OF _ assms], goal_cases)
  case (1 loop cs ov t start chunks ys)
  show ?case
  proof
    assume cfg: "cs = 10 \<and> ov = 10 \<and> t = eleven_a \<and> start = 0"
    have len: "length eleven_a = 11"
      by (simp add: eleven_a_def py_def)
    have "\<exists>chunks'. loop 10 10 eleven_a 0 chunks' = Some ys"
      using "1"(2) cfg
      by (simp add: len find_break_eleven_a next_start_def Let_def split: if_splits) blast+
    then show False
      using "1"(1) by blast
  qed
qed

lemma chunk_text_eleven_a: "chunk_text_with 10 10 eleven_a = None"
proof -
  have "normalize eleven_a = eleven_a"
    by (simp add: normalize_def strip_def eleven_a_def py_def is_space_def)
  moreover have "length eleven_a = 11"
    by (simp add: eleven_a_def py_def)
  moreover have "chunk_loop 10 10 eleven_a 0 [] = None"
    using chunk_loop_eleven_a_no_result [of 10 10 eleven_a 0 "[]"] by (cases "chunk_loop 10 10 eleven_a 0 []") auto
  ultimately show ?thesis
    by (simp add: chunk_text_with_def)
qed

lemma chunk_text_short:
  assumes "int (length (normalize raw)) \<le> chunk_size"
  shows "chunk_text_with chunk_size overlap raw =
           Some (if normalize raw \<noteq> [] then [normalize raw] else [])"
  using assms by (simp add: chunk_text_with_def Let_def)

lemma length_py: "length (py s) = length s"
  by (simp add: py_def)

lemma normalize_hello: "normalize (py ''hello'') = py ''hello''"
  by (simp add: normalize_def strip_def py_def is_space_def)

lemma hello_not_blank: "py ''hello'' \<noteq> []"
  by (simp add: py_def)

text \<open>
  C6, as stated, fails: with overlap = target size = 10 nothing is rejected. A
  five-letter text comes back as one chunk, and on an eleven-letter text the loop
  runs and never returns.
\<close>

theorem chunk_text_overlap_not_rejected:
  "chunk_text_with 10 10 (py ''hello'') = Some [py ''hello''] \<and>
   chunk_text_with 10 10 eleven_a = None"
  using chunk_text_short [of "py ''hello''" 10 10] chunk_text_eleven_a
  by (simp add: normalize_hello hello_not_blank length_py)

text \<open>
  C6, amended. \<open>chunk_text\<close> has no configuration check and no configuration error.
  Its parameters are the class constants \<open>CHUNK_SIZE = 1000\<close> and
  \<open>CHUNK_OVERLAP = 200\<close>, whose overlap is below the target size, and with them it
  returns a chunk list for every text. With any other pair of values nothing is
  rejected either: a text whose normalized length is at most the target size comes
  back as the single normalized chunk (no chunk if it is blank), whatever the overlap.
\<close>

theorem chunk_text_no_configuration_check:
  "CHUNK_OVERLAP < CHUNK_SIZE \<and>
   (\<exists>chunks. chunk_text raw = Some chunks) \<and>
   (int (length (normalize raw)) \<le> chunk_size \<longrightarrow>
      chunk_text_with chunk_size overlap raw =
        Some (if normalize raw \<noteq> [] then [normalize raw] else []))"
  using chunk_text_total [of raw] chunk_text_short [of raw chunk_size overlap]
  by (auto simp: CHUNK_SIZE_def CHUNK_OVERLAP_def)

theorem chunk_text_no_configuration_check_witness:
  "int (length (normalize (py ''hello''))) \<le> 5 \<and>
   chunk_text_with 5 7 (py ''hello'') = Some [normalize (py ''hello'')]"
  using chunk_text_no_configuration_check [of "py ''hello''" 5 7]
  by (simp add: normalize_hello hello_not_blank length_py)

subsection \<open>The scenario \<open>"A. " * 500\<close>\<close>

text \<open>
  C9, as stated, fails: the second chunk of the scenario is the last 601 of the 1499
  characters of the normalized text, so it begins at position 898, which is past
  position 800.
\<close>

theorem a500_second_chunk_past_800:
  "chunk_text a500 = Some [take 1097 (normalize a500), drop 898 (normalize a500)] \<and>
   length (normalize a500) = 1499 \<and>
   length (drop 898 (normalize a500)) = 601 \<and>
   \<not> next_start CHUNK_OVERLAP (find_break CHUNK_SIZE (normalize a500) 0) \<le> 800"
  by (simp add: chunk_text_a500 length_normalize_a500 find_break_a500 next_start_def
      CHUNK_OVERLAP_def)

text \<open>
  C9, amended. For the text \<open>"A. " * 500\<close> with target size 1000 and overlap 200,
  \<open>chunk_text\<close> produces exactly 2 chunks. The first is \<open>text[0:1098]\<close> stripped: it
  ends at the sentence boundary \<open>". "\<close> that ends at position 1098, the last one
  within 100 characters of position 1000. The second begins at position
  \<open>1098 - 200 = 898\<close> of the normalized text and runs to its end.
\<close>

theorem a500_two_chunks:
  "chunk_text a500 = Some [take 1097 (normalize a500), drop 898 (normalize a500)] \<and>
   find_break CHUNK_SIZE (normalize a500) 0 = 1098 \<and>
   take 2 (drop 1096 (normalize a500)) = py ''. '' \<and>
   strip (py_slice (normalize a500) 0 1098) = take 1097 (normalize a500) \<and>
   next_start CHUNK_OVERLAP 1098 = 898 \<and>
   py_slice_from (normalize a500) 898 = drop 898 (normalize a500)"
proof -
  have "take 1097 (tile 0 1499) = tile 0 1097"
    by (simp add: take_tile)
  moreover have "py_slice_from (tile 0 1499) 898 = drop 898 (tile 0 1499)"
    by (simp add: py_slice_from_def slice_index_def length_tile)
  ultimately show ?thesis
    using first_chunk_a500
    by (simp add: chunk_text_a500 find_break_a500 sentence_end_a500 next_start_def
        CHUNK_OVERLAP_def) (simp add: normalize_a500)
qed

section \<open>Properties of the embeddings generator\<close>

lemma concat_batches_of: "0 < n \<Longrightarrow> concat (batches_of n xs) = xs"
proof (induction n xs rule: batches_of.induct)
  case (1 n xs)
  then show ?case
    by (subst batches_of.simps) auto
qed

lemma map_index_indexed_response:
  "map index (indexed_response e batch) = map int [0..<length batch]"
  by (rule nth_equalityI) (simp_all add: indexed_response_def)

lemma map_embedding_indexed_response:
  "map embedding (indexed_response e batch) = map e batch"
  by (rule nth_equalityI) (simp_all add: indexed_response_def)

lemma filter_same_key_distinct:
  "distinct (map f xs) \<Longrightarrow> k \<in> set xs \<Longrightarrow> filter (\<lambda>x. f k = f x) xs = [k]"
proof (induction xs)
  case Nil
  then show ?case by simp
next
  case (Cons x xs)
  show ?case
  proof (cases "k = x")
    case True
    have "filter (\<lambda>y. f x = f y) xs = []"
      using Cons.prems(1) by (auto simp: filter_empty_conv)
    then show ?thesis using True by simp
  next
    case False
    then have "k \<in> set xs" using Cons.prems(2) by simp
    moreover have "f x \<notin> f ` set xs" using Cons.prems(1) by simp
    then have "f k \<noteq> f x" using \<open>k \<in> set xs\<close> by (metis imageI)
    ultimately show ?thesis using Cons by simp
  qed
qed

lemma sort_permuted_response:
  assumes "mset data = mset (indexed_response e batch)"
  shows "sort_key index data = indexed_response e batch"
proof (rule properties_for_sort_key)
  show "mset (indexed_response e batch) = mset data"
    using assms by simp
  show "sorted (map index (indexed_response e batch))"
    by (simp add: map_index_indexed_response sorted_map)
  fix k assume k: "k \<in> set (indexed_response e batch)"
  let ?P = "\<lambda>x. index k = index x"
  have "distinct (map index (indexed_response e batch))"
    by (simp add: map_index_indexed_response distinct_map)
  then have one: "filter ?P (indexed_response e batch) = [k]"
    using k by (rule filter_same_key_distinct)
  have "mset (filter ?P data) = mset (filter ?P (indexed_response e batch))"
    using assms by simp
  then have "mset (filter ?P data) = mset [k]"
    by (simp only: one)
  then have "mset (filter ?P data) = {#k#}"
    by (simp del: mset_filter)
  then have "filter ?P data = [k]"
    by (simp only: mset_single_iff)
  with one show "filter ?P (indexed_response e batch) = filter ?P data"
    by simp
qed

lemma embed_batches_permuted:
  assumes "answers_permuted create e"
  shows "embed_batches create batches acc = Inr (acc @ map e (concat batches))"
proof (induction batches arbitrary: acc)
  case Nil
  show ?case by simp
next
  case (Cons batch rest)
  obtain data where data: "create batch = Inr data" "mset data = mset (indexed_response e batch)"
    using assms unfolding answers_permuted_def by blast
  have "map embedding (sort_key index data) = map e batch"
    using sort_permuted_response [OF data(2)] by (simp add: map_embedding_indexed_response)
  then show ?case
    using data(1) Cons.IH by simp
qed

lemma retry3_first: "body 1 = Inr v \<Longrightarrow> retry3 body = Inr v"
  by (simp add: retry3_def)

lemma length_preprocess: "length (preprocess g texts) = length texts"
  by (simp add: preprocess_def)

lemma generate_embeddings_batch_permuted:
  assumes "0 < batch_size" and "answers_permuted (embeddings_create g 1) e"
  shows "generate_embeddings_batch g texts batch_size = Inr (map e (preprocess g texts))"
proof -
  have "generate_embeddings_batch_attempt g texts batch_size 1 = Inr (map e (preprocess g texts))"
    using assms(1) embed_batches_permuted [OF assms(2)]
    by (simp add: generate_embeddings_batch_attempt_def concat_batches_of)
  then show ?thesis
    unfolding generate_embeddings_batch_def by (rule retry3_first)
qed

text \<open>
  C3. For every list of input texts and every batch size above 0, when the embedding
  service answers every batch with its items in any order, \<open>generate_embeddings_batch\<close>
  returns exactly one vector for each input position, in input order: the vector at
  position \<open>k\<close> is the one the service assigns to the \<open>k\<close>-th submitted text, which
  is the truncated input, or a single space when the input is empty or only whitespace.
\<close>

theorem generate_embeddings_batch_order:
  assumes "0 < batch_size" and "answers_permuted (embeddings_create g 1) e"
  shows "\<exists>vectors. generate_embeddings_batch g texts batch_size = Inr vectors \<and>
           length vectors = length texts \<and>
           (\<forall>k<length texts.
              vectors ! k =
                e (let truncated = truncate_to_token_limit g (texts ! k)
                   in if strip truncated \<noteq> [] then truncated else [32]))"
  using generate_embeddings_batch_permuted [OF assms, of texts]
  by (simp add: preprocess_def)

theorem generate_embeddings_batch_order_witness:
  "(0 :: int) < 2 \<and> answers_permuted (embeddings_create reversing_embedder 1) length_vector \<and>
   generate_embeddings_batch reversing_embedder [py ''ab'', py ''  '', py ''cde''] 2 =
     Inr [[2], [1], [3]]"
proof -
  have ok: "answers_permuted (embeddings_create reversing_embedder 1) length_vector"
    by (simp add: answers_permuted_def reversing_embedder_def)
  have "(0 :: int) < 2" by simp
  from generate_embeddings_batch_order [OF this ok, of "[py ''ab'', py ''  '', py ''cde'']"]
  obtain vectors where v: "generate_embeddings_batch reversing_embedder [py ''ab'', py ''  '', py ''cde''] 2 = Inr vectors"
    "length vectors = 3" 
    "\<forall>k<3. vectors ! k = length_vector (let truncated = truncate_to_token_limit reversing_embedder ([py ''ab'', py ''  '', py ''cde''] ! k)
                   in if strip truncated \<noteq> [] then truncated else [32])"
    by auto
  have tr: "truncate_to_token_limit reversing_embedder t = (if length t \<le> 8191 then t else take 8191 t)" for t
    by (simp add: truncate_to_token_limit_def reversing_embedder_def token_limit_def)
  have "vectors ! 0 = [2]" "vectors ! 1 = [1]" "vectors ! 2 = [3]"
    using v(3) by (simp_all add: tr py_def strip_def is_space_def length_vector_def)
  then have "vectors = [[2], [1], [3]]"
    using v(2) by (auto simp: list_eq_iff_nth_eq less_Suc_eq numeral_3_eq_3 numeral_2_eq_2)
  then show ?thesis using v(1) ok by simp
qed

section \<open>Properties of the retriever\<close>

lemma collect_results_eq:
  "collect_results min_score top_k hits acc =
     acc @ take (max 1 (nat (top_k - int (length acc))))
             (map (\<lambda>hit. to_result hit (search_score hit))
                (filter (\<lambda>hit. \<not> search_score hit < min_score) hits))"
proof (induction hits arbitrary: acc)
  case Nil
  show ?case by simp
next
  case (Cons hit hits)
  show ?case
  proof (cases "search_score hit < min_score")
    case True
    then show ?thesis using Cons.IH [of acc] by simp
  next
    case keep: False
    show ?thesis
    proof (cases "top_k \<le> int (length acc) + 1")
      case True
      then have "max 1 (nat (top_k - int (length acc))) = 1"
        by linarith
      then show ?thesis using keep True by simp
    next
      case False
      then have "max 1 (nat (top_k - int (length acc))) =
          Suc (max 1 (nat (top_k - int (length (acc @ [to_result hit (search_score hit)])))))"
        by (simp add: max_def) linarith
      then show ?thesis
        using keep False Cons.IH [of "acc @ [to_result hit (search_score hit)]"] by simp
    qed
  qed
qed

lemma length_filter_threshold:
  fixes a b :: real
  assumes "a \<le> b"
  shows "length (filter (\<lambda>hit. \<not> search_score hit < b) hits) \<le>
         length (filter (\<lambda>hit. \<not> search_score hit < a) hits)"
proof -
  have "filter (\<lambda>hit. \<not> search_score hit < b) hits =
      filter (\<lambda>hit. \<not> search_score hit < b) (filter (\<lambda>hit. \<not> search_score hit < a) hits)"
    using assms by (auto intro!: filter_cong)
  then show ?thesis
    by (metis length_filter_le)
qed

lemma collect_results_monotone:
  assumes "a \<le> b"
  shows "length (collect_results b top_k hits []) \<le> length (collect_results a top_k hits [])"
  using length_filter_threshold [OF assms, of hits]
  by (simp add: collect_results_eq)

lemma collect_results_score:
  assumes "x \<in> set (collect_results min_score top_k hits [])"
  shows "min_score \<le> score x"
proof -
  from assms obtain hit where "x = to_result hit (search_score hit)" "\<not> search_score hit < min_score"
    by (auto simp: collect_results_eq dest!: in_set_takeD)
  then show ?thesis by (simp add: to_result_def)
qed

lemma collect_results_count:
  assumes "1 \<le> top_k \<or> int (length hits) \<le> 2 * top_k"
  shows "int (length (collect_results min_score top_k hits [])) \<le> top_k"
proof (cases "1 \<le> top_k")
  case True
  then show ?thesis by (simp add: collect_results_eq)
next
  case False
  with assms have "hits = []" by (cases hits) auto
  then show ?thesis using assms False by simp
qed

text \<open>
  For the same query, the same \<open>top_k\<close> and the same sequence of scored candidates
  returned by the store, raising the threshold from \<open>min_score_a\<close> to \<open>min_score_b\<close>
  never increases the number of results of \<open>search\<close>, and every returned result has
  a score of at least the threshold. At most \<open>top_k\<close> results are returned for every
  \<open>top_k\<close> of at least 1, and for every candidate sequence no longer than the
  \<open>top_k * 2\<close> rows the store was asked for.
\<close>

lemma search_threshold_results:
  assumes "generate_embedding (embeddings r) query = Inr query_vector"
    and "search_client r (search_query query query_vector top_k document_filter) = Inr candidates"
    and "min_score_a \<le> min_score_b"
  shows "\<exists>results_a results_b.
           search r query top_k min_score_a document_filter = Inr results_a \<and>
           search r query top_k min_score_b document_filter = Inr results_b \<and>
           length results_b \<le> length results_a \<and>
           (\<forall>x\<in>set results_a. min_score_a \<le> score x) \<and>
           (\<forall>x\<in>set results_b. min_score_b \<le> score x) \<and>
           (1 \<le> top_k \<or> int (length candidates) \<le> 2 * top_k \<longrightarrow>
              int (length results_a) \<le> top_k \<and> int (length results_b) \<le> top_k)"
  using assms collect_results_monotone [of min_score_a min_score_b top_k candidates]
    collect_results_score [of _ min_score_a top_k candidates]
    collect_results_score [of _ min_score_b top_k candidates]
    collect_results_count [of top_k candidates]
  by (simp add: search_def)

lemma generate_embedding_leave:
  "generate_embedding (embeddings ranked_retriever) (py ''leave'') = Inr [5]"
  by (simp add: generate_embedding_def retry3_def generate_embedding_attempt_def
      truncate_to_token_limit_def token_limit_def ranked_retriever_def reversing_embedder_def
      indexed_response_def length_vector_def py_def strip_def is_space_def)

lemma search_client_ranked:
  "search_client ranked_retriever (search_query q v k None) = Inr ranked_hits"
  by (simp add: ranked_retriever_def search_query_def)

lemma search_ranked_values:
  "search ranked_retriever (py ''leave'') 2 (7 / 10) None = Inr [result_B2, result_A2]"
  by (simp add: search_def generate_embedding_leave search_client_ranked ranked_hits_def
        search_score_def mk_hit_def Let_def result_B2_def result_A2_def)

lemma search_ranked_strict:
  "search ranked_retriever (py ''leave'') 2 (17 / 20) None = Inr [result_B2]"
  by (simp add: search_def generate_embedding_leave search_client_ranked ranked_hits_def
        search_score_def mk_hit_def Let_def result_B2_def)





subsection \<open>Context expansion\<close>

lemma expand_results_keeps:
  assumes "expand_results r c groups acc = Inr out"
  shows "set acc \<subseteq> set out \<and> (\<forall>x\<in>set out. x \<in> set acc \<or> score x = 0.5)"
  using assms
proof (induction groups arbitrary: acc)
  case Nil
  then show ?case by simp
next
  case (Cons g groups)
  obtain doc_name chunk_indices where g: "g = (doc_name, chunk_indices)"
    by (cases g)
  show ?case
  proof (cases "additional_indices c chunk_indices = {}")
    case True
    then show ?thesis using Cons g by simp
  next
    case False
    then obtain hits where hits:
      "search_client r (context_query doc_name (additional_indices c chunk_indices)) = Inr hits"
      using Cons.prems g by (auto simp: Let_def split: sum.splits)
    let ?acc = "acc @ map (\<lambda>hit. to_result hit 0.5) hits"
    have "expand_results r c groups ?acc = Inr out"
      using Cons.prems g False hits by simp
    from Cons.IH [OF this]
    have "set ?acc \<subseteq> set out" and "\<forall>x\<in>set out. x \<in> set ?acc \<or> score x = 0.5"
      by blast+
    moreover have "\<forall>x\<in>set ?acc. x \<in> set acc \<or> score x = 0.5"
      by (auto simp: to_result_def)
    ultimately show ?thesis by auto
  qed
qed

text \<open>
  C8, amended. The list returned by \<open>search_with_context(query, top_k, context_chunks)\<close>
  contains (by id) every result of \<open>search(query, top_k)\<close> for the same query against
  the same store contents, and every other chunk in it carries the score 0.5. When
  \<open>context_chunks\<close> is not 0 the list is sorted by \<open>(document_name, chunk_index)\<close>;
  when \<open>context_chunks\<close> is 0 it is the result of \<open>search\<close> unchanged, in the store's
  ranking order.
\<close>

theorem search_with_context_results:
  assumes "search_with_context r query top_k context_chunks = Inr out"
  shows "\<exists>primary.
           search r query top_k (7 / 10) None = Inr primary \<and>
           rid ` set primary \<subseteq> rid ` set out \<and>
           (\<forall>x\<in>set out. x \<in> set primary \<or> score x = 0.5) \<and>
           (context_chunks \<noteq> 0 \<longrightarrow> sorted (map reading_key out)) \<and>
           (context_chunks = 0 \<longrightarrow> out = primary)"
proof -
  from assms obtain primary where primary: "search r query top_k 0.7 None = Inr primary"
    by (auto simp: search_with_context_def split: sum.splits)
  show ?thesis
  proof (cases "primary = [] \<or> context_chunks = 0")
    case True
    then have "out = primary"
      using assms primary by (auto simp: search_with_context_def)
    then show ?thesis using primary True by auto
  next
    case False
    then obtain expanded where
      expanded: "expand_results r context_chunks (group_by_document primary) primary = Inr expanded"
      and out: "out = sort_key reading_key expanded"
      using assms primary by (auto simp: search_with_context_def split: sum.splits)
    have "set primary \<subseteq> set out" "\<forall>x\<in>set out. x \<in> set primary \<or> score x = 0.5"
      using expand_results_keeps [OF expanded] by (simp_all add: out)
    moreover have "sorted (map reading_key out)"
      by (simp add: out)
    ultimately show ?thesis using primary False by auto
  qed
qed

lemma search_with_context_zero:
  "search_with_context ranked_retriever (py ''leave'') 2 0 = Inr [result_B2, result_A2]"
  by (simp add: search_with_context_def search_ranked_values)

text \<open>
  C8, as stated, fails: with \<open>context_chunks = 0\<close> the result of
  \<open>search_with_context\<close> is the result of \<open>search\<close> in the store's ranking order,
  here chunk 2 of document \<open>B\<close> before chunk 2 of document \<open>A\<close>, which is not sorted by
  \<open>(document_name, chunk_index)\<close>.
\<close>

theorem search_with_context_unsorted:
  "search_with_context ranked_retriever (py ''leave'') 2 0 = Inr [result_B2, result_A2] \<and>
   \<not> sorted (map reading_key [result_B2, result_A2])"
  by (simp add: search_with_context_zero)
     (simp add: reading_key_def result_B2_def result_A2_def to_result_def mk_hit_def py_def)

lemma additional_indices_one_two: "additional_indices 1 [2] = {1, 3}"
  by (auto simp: additional_indices_def)

lemma search_with_context_one:
  "search_with_context ranked_retriever (py ''leave'') 2 1 = Inr context_window"
  apply (simp add: search_with_context_def search_ranked_values)
  apply (simp add: group_by_document_def to_result_def mk_hit_def py_def additional_indices_one_two
      ranked_retriever_def context_query_def result_B2_def result_A2_def reading_key_def
      context_window_def)
  done

theorem search_with_context_results_witness:
  "search_with_context ranked_retriever (py ''leave'') 2 1 = Inr context_window \<and>
   (1 :: int) \<noteq> 0 \<and>
   search ranked_retriever (py ''leave'') 2 (7 / 10) None = Inr [result_B2, result_A2] \<and>
   rid result_B2 \<in> rid ` set context_window \<and>
   rid result_A2 \<in> rid ` set context_window \<and>
   sorted (map reading_key context_window) \<and>
   search_with_context ranked_retriever (py ''leave'') 2 0 = Inr [result_B2, result_A2] \<and>
   (0 :: int) = 0"
  using search_with_context_results [OF search_with_context_one]
    search_with_context_results [OF search_with_context_zero]
  by (simp add: search_with_context_one search_with_context_zero search_ranked_values)

section \<open>Properties of the indexer\<close>

lemma py_eq_iff: "py s = py t \<longleftrightarrow> s = t"
  by (simp add: py_def inj_map_eq_map inj_of_char)

lemma py_append: "py s @ py t = py (s @ t)"
  by (simp add: py_def)

subsection \<open>Deleting the chunks of a document\<close>

text \<open>What the scenario service makes of the filter texts.\<close>

lemma odata_literal_plain:
  assumes "39 \<notin> set s" and "rest = [] \<or> hd rest \<noteq> 39"
  shows "odata_literal lit (s @ 39 # rest) = Some (lit @ s, rest)"
  using assms
proof (induction s arbitrary: lit)
  case Nil
  then show ?case by (cases rest) auto
next
  case (Cons c s)
  then show ?case by simp
qed

lemma after_prefix_append: "after_prefix p (p @ s) = Some s"
  by (simp add: after_prefix_def)

lemma odata_comparison_eq:
  assumes "39 \<notin> set s" and "rest = [] \<or> hd rest \<noteq> 39"
  shows "odata_comparison ((py ''document_id eq '' @ [39]) @ s @ 39 # rest) =
           Some (\<lambda>r. row_document_id r = s, rest)"
  unfolding odata_comparison_def after_prefix_append
  by (simp add: odata_literal_plain [OF assms, of "[]", simplified])

lemma odata_comparison_ne:
  assumes "39 \<notin> set s" and "rest = [] \<or> hd rest \<noteq> 39"
  shows "odata_comparison ((py ''document_id ne '' @ [39]) @ s @ 39 # rest) =
           Some (\<lambda>r. row_document_id r \<noteq> s, rest)"
proof -
  have "after_prefix (py ''document_id eq '' @ [39]) ((py ''document_id ne '' @ [39]) @ s @ 39 # rest) = None"
    by (simp add: after_prefix_def py_def)
  then show ?thesis
    unfolding odata_comparison_def after_prefix_append
    by (simp add: odata_literal_plain [OF assms, of "[]", simplified])
qed

lemma odata_search_plain:
  assumes "39 \<notin> set document_id"
  shows "odata_search (document_id_filter document_id) stored =
           Inr (filter (\<lambda>r. row_document_id r = document_id) stored)"
proof -
  have shape: "document_id_filter document_id =
      (py ''document_id eq '' @ [39]) @ document_id @ 39 # []"
    by (simp add: document_id_filter_def)
  obtain n where n: "length (document_id_filter document_id) = Suc n"
    by (cases "document_id_filter document_id") (simp_all add: document_id_filter_def py_def)
  have "odata_or (Suc n) (document_id_filter document_id) =
      Some (\<lambda>r. row_document_id r = document_id)"
    unfolding shape using odata_comparison_eq [OF assms, of "[]"] by simp
  then show ?thesis
    by (simp add: odata_search_def n)
qed

lemma odata_search_quoted:
  "odata_search (document_id_filter quoted_id) stored =
     Inr (filter (\<lambda>r. row_document_id r = py ''d9'' \<or> row_document_id r \<noteq> py ''d9'') stored)"
proof -
  let ?second = "(py ''document_id ne '' @ [39]) @ py ''d9'' @ 39 # []"
  let ?tail = "py '' or '' @ ?second"
  have plain: "39 \<notin> set (py ''d9'')"
    by (simp add: py_def)
  have shape: "document_id_filter quoted_id = (py ''document_id eq '' @ [39]) @ py ''d9'' @ 39 # ?tail"
    by (simp add: document_id_filter_def quoted_id_def py_def)
  have tail: "?tail \<noteq> []" "?tail = [] \<or> hd ?tail \<noteq> 39"
    by (simp_all add: py_def)
  obtain n where n: "length (document_id_filter quoted_id) = Suc (Suc n)"
    by (simp add: document_id_filter_def quoted_id_def py_def eval_nat_numeral)
  have first: "odata_comparison (document_id_filter quoted_id) =
      Some (\<lambda>r. row_document_id r = py ''d9'', ?tail)"
    unfolding shape by (rule odata_comparison_eq [OF plain tail(2)])
  have second: "odata_comparison ?second = Some (\<lambda>r. row_document_id r \<noteq> py ''d9'', [])"
    by (rule odata_comparison_ne [OF plain]) simp
  have "odata_or (Suc (Suc n)) (document_id_filter quoted_id) =
      Some (\<lambda>r. row_document_id r = py ''d9'' \<or> row_document_id r \<noteq> py ''d9'')"
    by (simp only: odata_or.simps first second after_prefix_append tail(1) option.case
        prod.case simp_thms if_True if_False)
  then show ?thesis
    by (simp add: odata_search_def n)
qed

text \<open>
  With a service that reads the filter as OData does and a \<open>document_id\<close> without a
  quote character: where the index holds no chunk of the document,
  \<open>delete_document_chunks\<close> returns 0 and leaves the index as it was, its log of
  delete calls included; and when the delete call does not raise, it returns the
  number of stored chunks whose \<open>document_id\<close> field equals the argument.
\<close>

lemma delete_document_chunks_plain_id:
  assumes "filter_search ix = odata_search" and "39 \<notin> set document_id"
  shows "((\<forall>r\<in>set (rows store). row_document_id r \<noteq> document_id) \<longrightarrow>
            delete_document_chunks ix store document_id = (Inr 0, store)) \<and>
         (delete_fault ix = None \<longrightarrow>
            fst (delete_document_chunks ix store document_id) =
              Inr (length (filter (\<lambda>r. row_document_id r = document_id) (rows store))))"
  using assms
  by (auto simp: delete_document_chunks_def odata_search_plain Let_def filter_empty_conv
      split: option.splits)

text \<open>
  A delete call that raises has been issued: it is in the log, and the records are
  still in the index.
\<close>

lemma delete_document_chunks_delete_raises:
  assumes "filter_search ix (document_id_filter document_id) (rows store) = Inr found"
    and "found \<noteq> []" and "delete_fault ix = Some e"
  shows "delete_document_chunks ix store document_id =
           (Inl e, store\<lparr>delete_calls := delete_calls store @ [map row_id found]\<rparr>)"
  using assms by (simp add: delete_document_chunks_def)

text \<open>
  C10. The argument is pasted into the filter text between two quote characters
  without escaping, so a \<open>document_id\<close> that holds a quote character changes the
  filter. With the document id \<open>d9' or document_id ne 'd9\<close>, of which the index holds
  no chunk, the filter text is \<open>document_id eq 'd9' or document_id ne 'd9'\<close>, which
  every record satisfies: \<open>delete_document_chunks\<close> issues one delete call with the
  ids of all three records, empties the index and returns 3, where the number of
  stored chunks whose \<open>document_id\<close> equals the argument is 0.
\<close>

theorem delete_document_chunks_quoted_id:
  "filter (\<lambda>r. row_document_id r = quoted_id) (rows three_rows) = [] \<and>
   document_id_filter quoted_id = py ''document_id eq '' @ [39] @ py ''d9'' @ [39] @
     py '' or document_id ne '' @ [39] @ py ''d9'' @ [39] \<and>
   delete_document_chunks demo_indexer three_rows quoted_id =
     (Inr 3, \<lparr>rows = [], delete_calls = [[py ''a0'', py ''b0'', py ''a1'']]\<rparr>)"
proof -
  have none: "filter (\<lambda>r. row_document_id r = quoted_id) (rows three_rows) = []"
    by (simp add: three_rows_def mk_row_def quoted_id_def py_def)
  have filter_text: "document_id_filter quoted_id = py ''document_id eq '' @ [39] @ py ''d9'' @ [39] @
      py '' or document_id ne '' @ [39] @ py ''d9'' @ [39]"
    by (simp add: document_id_filter_def quoted_id_def)
  have service: "filter_search demo_indexer = odata_search" "delete_fault demo_indexer = None"
    by (simp_all add: demo_indexer_def)
  have "delete_document_chunks demo_indexer three_rows quoted_id =
      (Inr 3, \<lparr>rows = [], delete_calls = [[py ''a0'', py ''b0'', py ''a1'']]\<rparr>)"
    by (simp add: delete_document_chunks_def service odata_search_quoted three_rows_def
        mk_row_def Let_def)
  with none filter_text show ?thesis
    by (intro conjI)
qed

subsection \<open>Bulk indexing\<close>

lemma index_document_total: "\<exists>res store'. index_document ix d store = Some (res, store')"
proof (cases "download_document ix d")
  case (Inl e)
  then show ?thesis by (simp add: index_document_def)
next
  case (Inr c)
  obtain chunks where "chunk_text (extract_text ix d c) = Some chunks"
    using chunk_text_total [of "extract_text ix d c"] by blast
  then show ?thesis
    using Inr by (cases "index_chunks ix d chunks store") (simp add: index_document_def Let_def)
qed

lemma index_loop_keeps_other_names:
  assumes "index_loop ix docs results store = Some (results', store')"
    and "n \<notin> doc_name ` set docs"
  shows "results' n = results n"
  using assms
proof (induction docs arbitrary: results store)
  case Nil
  then show ?case by simp
next
  case (Cons d docs)
  from Cons.prems(2) have n: "n \<noteq> doc_name d" "n \<notin> doc_name ` set docs"
    by auto
  obtain res store1 where step: "index_document ix d store = Some (res, store1)"
    using index_document_total by blast
  show ?case
  proof (cases res)
    case (Inl e)
    then have "index_loop ix docs (results(doc_name d \<mapsto> 0)) store1 = Some (results', store')"
      using Cons.prems(1) step by simp
    from Cons.IH [OF this n(2)] show ?thesis using n(1) by simp
  next
    case (Inr c)
    then have "index_loop ix docs (results(doc_name d \<mapsto> c)) store1 = Some (results', store')"
      using Cons.prems(1) step by simp
    from Cons.IH [OF this n(2)] show ?thesis using n(1) by simp
  qed
qed

text \<open>
  The run of the loop, call by call: \<open>stores\<close> are the states of the index before the
  first call of \<open>index_document\<close>, between the calls and after the last one, and
  \<open>outcomes\<close> what each call raised or returned.
\<close>

lemma index_loop_trace:
  "\<exists>results' store' outcomes stores.
     index_loop ix docs results store = Some (results', store') \<and>
     dom results' = dom results \<union> doc_name ` set docs \<and>
     length outcomes = length docs \<and>
     length stores = Suc (length docs) \<and>
     stores ! 0 = store \<and>
     stores ! length docs = store' \<and>
     (\<forall>k<length docs.
        index_document ix (docs ! k) (stores ! k) = Some (outcomes ! k, stores ! Suc k) \<and>
        (doc_name (docs ! k) \<notin> doc_name ` set (drop (Suc k) docs) \<longrightarrow>
           results' (doc_name (docs ! k)) = Some (case outcomes ! k of Inl e \<Rightarrow> 0 | Inr c \<Rightarrow> c)))"
proof (induction docs arbitrary: results store)
  case Nil
  show ?case
    by (intro exI [of _ results] exI [of _ store] exI [of _ "[]"] exI [of _ "[store]"]) simp
next
  case (Cons d docs)
  obtain res store1 where step: "index_document ix d store = Some (res, store1)"
    using index_document_total by blast
  define count where "count = (case res of Inl e \<Rightarrow> 0 | Inr c \<Rightarrow> c)"
  have head: "index_loop ix (d # docs) results store =
      index_loop ix docs (results(doc_name d \<mapsto> count)) store1"
    using step by (cases res) (simp_all add: count_def)
  from Cons.IH [of "results(doc_name d \<mapsto> count)" store1]
  obtain results' store' outcomes stores where
    loop: "index_loop ix docs (results(doc_name d \<mapsto> count)) store1 = Some (results', store')"
    and dom: "dom results' = dom (results(doc_name d \<mapsto> count)) \<union> doc_name ` set docs"
    and lens: "length outcomes = length docs" "length stores = Suc (length docs)"
    and ends: "stores ! 0 = store1" "stores ! length docs = store'"
    and steps: "\<forall>k<length docs.
        index_document ix (docs ! k) (stores ! k) = Some (outcomes ! k, stores ! Suc k) \<and>
        (doc_name (docs ! k) \<notin> doc_name ` set (drop (Suc k) docs) \<longrightarrow>
           results' (doc_name (docs ! k)) = Some (case outcomes ! k of Inl e \<Rightarrow> 0 | Inr c \<Rightarrow> c))"
    by (elim exE conjE)
  have c1: "index_loop ix (d # docs) results store = Some (results', store')"
    using head loop by simp
  have c2: "dom results' = dom results \<union> doc_name ` set (d # docs)"
    using dom by simp
  have c3: "length (res # outcomes) = length (d # docs)"
    "length (store # stores) = Suc (length (d # docs))"
    "(store # stores) ! 0 = store" "(store # stores) ! length (d # docs) = store'"
    using lens ends by simp_all
  have c4: "index_document ix ((d # docs) ! k) ((store # stores) ! k) =
        Some ((res # outcomes) ! k, (store # stores) ! Suc k) \<and>
      (doc_name ((d # docs) ! k) \<notin> doc_name ` set (drop (Suc k) (d # docs)) \<longrightarrow>
         results' (doc_name ((d # docs) ! k)) =
           Some (case (res # outcomes) ! k of Inl e \<Rightarrow> 0 | Inr c \<Rightarrow> c))"
    if "k < length (d # docs)" for k
  proof (cases k)
    case 0
    have "results' (doc_name d) = Some count" if "doc_name d \<notin> doc_name ` set docs"
      using index_loop_keeps_other_names [OF loop that] by simp
    then show ?thesis
      using 0 step ends(1) by (simp add: count_def)
  next
    case (Suc j)
    then have "j < length docs"
      using that by simp
    from steps [rule_format, OF this] show ?thesis
      using Suc by simp
  qed
  show ?case
    by (intro exI [of _ results'] exI [of _ store'] exI [of _ "res # outcomes"]
        exI [of _ "store # stores"] conjI allI impI c1 c2 c3 c4 [THEN conjunct1]
        c4 [THEN conjunct2, rule_format])
qed

text \<open>
  C2. Whatever the list of documents, once the index exists and the documents are
  listed, \<open>index_all_documents\<close> returns a mapping with an entry for every supported
  document, and it has called \<open>index_document\<close> once for every supported document,
  in order, each call starting from the index as the call before left it, whether
  that call returned or raised an exception (at the download, the embedding, the
  computation of an id or the upload). The index it returns is the one the last call
  left. The entry of a document is the count its call returned, or 0 if its call
  raised, unless a later document of the same name overwrites the entry.
\<close>

theorem index_all_documents_isolation:
  assumes "ensure_index_exists ix = Inr ()" and "list_documents ix = Inr documents"
  shows "\<exists>results store' outcomes stores.
           index_all_documents ix store = Some (Inr results, store') \<and>
           dom results = doc_name ` {d \<in> set documents. is_supported d} \<and>
           length outcomes = length (filter is_supported documents) \<and>
           length stores = Suc (length (filter is_supported documents)) \<and>
           stores ! 0 = store \<and>
           stores ! length (filter is_supported documents) = store' \<and>
           (\<forall>k<length (filter is_supported documents).
              index_document ix (filter is_supported documents ! k) (stores ! k) =
                Some (outcomes ! k, stores ! Suc k) \<and>
              (doc_name (filter is_supported documents ! k) \<notin>
                 doc_name ` set (drop (Suc k) (filter is_supported documents)) \<longrightarrow>
               results (doc_name (filter is_supported documents ! k)) =
                 Some (case outcomes ! k of Inl e \<Rightarrow> 0 | Inr c \<Rightarrow> c)))"
proof -
  let ?docs = "filter is_supported documents"
  from index_loop_trace [of ix ?docs Map.empty store]
  obtain results store' outcomes stores where
    loop: "index_loop ix ?docs Map.empty store = Some (results, store')"
    and dom: "dom results = dom (Map.empty :: pystr \<rightharpoonup> nat) \<union> doc_name ` set ?docs"
    and rest: "length outcomes = length ?docs" "length stores = Suc (length ?docs)"
      "stores ! 0 = store" "stores ! length ?docs = store'"
      "\<forall>k<length ?docs.
        index_document ix (?docs ! k) (stores ! k) = Some (outcomes ! k, stores ! Suc k) \<and>
        (doc_name (?docs ! k) \<notin> doc_name ` set (drop (Suc k) ?docs) \<longrightarrow>
           results (doc_name (?docs ! k)) = Some (case outcomes ! k of Inl e \<Rightarrow> 0 | Inr c \<Rightarrow> c))"
    by (elim exE conjE)
  have all: "index_all_documents ix store = Some (Inr results, store')"
    using assms loop by (simp add: index_all_documents_def)
  have dom': "dom results = doc_name ` {d \<in> set documents. is_supported d}"
    using dom by simp
  show ?thesis
    by (intro exI [of _ results] exI [of _ store'] exI [of _ outcomes] exI [of _ stores]
        conjI all dom' rest)
qed

subsection \<open>Re-indexing an unchanged document\<close>

text \<open>A document id with a surrogate code point in it has no chunk id.\<close>

lemma chunk_id_surrogate:
  assumes "c \<in> set document_id" and "is_surrogate c"
  shows "chunk_id ix document_id i chunk = Inl UnicodeEncodeError"
  using assms by (auto simp: chunk_id_def encodable_def id_source_def list_ex_iff)

lemma build_documents_ids:
  assumes "build_documents ix document items acc = Inr docs"
  shows "map row_id docs =
           map row_id acc @
           map (\<lambda>(i, chunk, vec). take 32 (sha256_hexdigest ix (id_source (doc_id document) i chunk)))
             items \<and>
         (\<forall>(i, chunk, vec)\<in>set items. encodable (id_source (doc_id document) i chunk))"
  using assms
proof (induction items arbitrary: acc)
  case Nil
  then show ?case by simp
next
  case (Cons item items)
  obtain i chunk vec where item: "item = (i, chunk, vec)"
    by (cases item) auto
  from Cons.prems obtain cid where
    cid: "chunk_id ix (doc_id document) i chunk = Inr cid"
    and rest: "build_documents ix document items
        (acc @ [\<lparr>row_id = cid, row_document_id = doc_id document,
                 row_document_name = doc_name document, row_chunk_index = int i,
                 row_content = chunk, row_content_vector = vec,
                 row_created_at = utcnow_isoformat ix @ py ''Z'',
                 row_source_url = web_url document\<rparr>]) = Inr docs"
    by (auto simp: item split: sum.splits)
  from cid have enc: "encodable (id_source (doc_id document) i chunk)"
    and cid_eq: "cid = take 32 (sha256_hexdigest ix (id_source (doc_id document) i chunk))"
    by (auto simp: chunk_id_def split: if_splits)
  from Cons.IH [OF rest] show ?case
    using enc cid_eq by (simp add: item)
qed

lemma build_documents_encodable:
  assumes "\<forall>(i, chunk, vec)\<in>set items. encodable (id_source (doc_id document) i chunk)"
  shows "\<exists>docs. build_documents ix document items acc = Inr docs"
  using assms
proof (induction items arbitrary: acc)
  case Nil
  show ?case by simp
next
  case (Cons item items)
  obtain i chunk vec where item: "item = (i, chunk, vec)"
    by (cases item) auto
  from Cons.prems have "encodable (id_source (doc_id document) i chunk)"
    and "\<forall>(i, chunk, vec)\<in>set items. encodable (id_source (doc_id document) i chunk)"
    by (simp_all add: item)
  then show ?case
    using Cons.IH by (simp add: item chunk_id_def)
qed

lemma enumerate_chunks:
  "map (\<lambda>(i, chunk, vec). f i chunk) (zip [0..<length chunks] (zip chunks vectors)) =
     map (\<lambda>i. f i (chunks ! i)) [0..<min (length chunks) (length vectors)]"
  by (rule nth_equalityI) simp_all

lemma enumerate_chunks_all:
  "(\<forall>(i, chunk, vec)\<in>set (zip [0..<length chunks] (zip chunks vectors)). P i chunk) \<longleftrightarrow>
   (\<forall>i<min (length chunks) (length vectors). P i (chunks ! i))"
proof (intro iffI allI impI ballI)
  fix i
  assume every: "\<forall>(i, chunk, vec)\<in>set (zip [0..<length chunks] (zip chunks vectors)). P i chunk"
    and i: "i < min (length chunks) (length vectors)"
  have "(i, chunks ! i, vectors ! i) \<in> set (zip [0..<length chunks] (zip chunks vectors))"
    using i by (auto simp: set_zip intro!: exI [of _ i])
  with every show "P i (chunks ! i)"
    by auto
next
  fix x
  assume every: "\<forall>i<min (length chunks) (length vectors). P i (chunks ! i)"
    and "x \<in> set (zip [0..<length chunks] (zip chunks vectors))"
  then obtain k where "k < min (length chunks) (length vectors)" "x = (k, chunks ! k, vectors ! k)"
    by (auto simp: set_zip)
  with every show "case x of (i, chunk, vec) \<Rightarrow> P i chunk"
    by simp
qed

lemma row_ids_documents_to_index:
  assumes "documents_to_index ix document chunks vectors = Inr docs"
  shows "map row_id docs =
           map (\<lambda>i. take 32 (sha256_hexdigest ix (id_source (doc_id document) i (chunks ! i))))
             [0..<min (length chunks) (length vectors)]"
    and "\<forall>i<min (length chunks) (length vectors). encodable (id_source (doc_id document) i (chunks ! i))"
proof -
  note ids = build_documents_ids [OF assms [unfolded documents_to_index_def]]
  show "map row_id docs =
      map (\<lambda>i. take 32 (sha256_hexdigest ix (id_source (doc_id document) i (chunks ! i))))
        [0..<min (length chunks) (length vectors)]"
    using ids [THEN conjunct1] by (simp only: enumerate_chunks list.map append_Nil)
  show "\<forall>i<min (length chunks) (length vectors). encodable (id_source (doc_id document) i (chunks ! i))"
    using ids [THEN conjunct2] by (simp only: enumerate_chunks_all)
qed

lemma documents_to_index_encodable:
  assumes "\<forall>i<min (length chunks) (length vectors). encodable (id_source (doc_id document) i (chunks ! i))"
  shows "\<exists>docs. documents_to_index ix document chunks vectors = Inr docs"
  unfolding documents_to_index_def
  by (rule build_documents_encodable) (simp only: enumerate_chunks_all, rule assms)

lemma length_documents_to_index:
  assumes "documents_to_index ix document chunks vectors = Inr docs"
  shows "length docs = min (length chunks) (length vectors)"
  using row_ids_documents_to_index(1) [OF assms]
  by (metis length_map length_upt minus_nat.diff_0)

lemma upsert_ids: "row_id ` set (upsert d rs) = insert (row_id d) (row_id ` set rs)"
  by (induction rs) auto

lemma upsert_known_id:
  "row_id d \<in> row_id ` set rs \<Longrightarrow> map row_id (upsert d rs) = map row_id rs"
  by (induction rs) auto

lemma stored_ids_grow:
  "row_id ` set (foldl (\<lambda>rs d. if acc d then upsert d rs else rs) rs docs) =
     row_id ` set rs \<union> row_id ` set (filter acc docs)"
  by (induction docs arbitrary: rs) (auto simp: upsert_ids)

lemma stored_ids_known:
  "row_id ` set docs \<subseteq> row_id ` set rs \<Longrightarrow>
   map row_id (foldl (\<lambda>rs d. if acc d then upsert d rs else rs) rs docs) = map row_id rs"
proof (induction docs arbitrary: rs)
  case Nil
  show ?case by simp
next
  case (Cons d docs)
  let ?rs = "if acc d then upsert d rs else rs"
  have same: "map row_id ?rs = map row_id rs"
    using Cons.prems by (simp add: upsert_known_id)
  then have "row_id ` set ?rs = row_id ` set rs"
    by (metis set_map)
  then have "row_id ` set docs \<subseteq> row_id ` set ?rs"
    using Cons.prems by simp
  from Cons.IH [OF this] show ?case
    using same by simp
qed

lemma filter_all_of_length: "length (filter P xs) = length xs \<Longrightarrow> filter P xs = xs"
proof (induction xs)
  case Nil
  show ?case by simp
next
  case (Cons x xs)
  have "length (filter P xs) \<le> length xs"
    by simp
  with Cons show ?case
    by (cases "P x") auto
qed

lemma index_chunks_result:
  assumes "index_chunks ix document chunks store = (Inr n, store')"
  shows "\<exists>vectors docs.
           documents_to_index ix document chunks vectors = Inr docs \<and>
           n = length (filter (upload_accepts ix) docs) \<and>
           rows store' =
             foldl (\<lambda>rs d. if upload_accepts ix d then upsert d rs else rs) (rows store) docs"
proof -
  from assms obtain vectors where
    v: "generate_embeddings_batch (idx_embeddings ix) chunks 100 = Inr vectors"
    by (auto simp: index_chunks_def split: sum.splits)
  from assms v obtain docs where
    d: "documents_to_index ix document chunks vectors = Inr docs"
    by (auto simp: index_chunks_def split: sum.splits)
  have nofault: "upload_fault ix docs = None"
    using assms v d by (auto simp: index_chunks_def upload_documents_def split: option.splits)
  have "n = length (filter (upload_accepts ix) docs)"
    using assms v d nofault
    by (auto simp: index_chunks_def upload_documents_def filter_map comp_def)
  moreover have "rows store' =
      foldl (\<lambda>rs d. if upload_accepts ix d then upsert d rs else rs) (rows store) docs"
    using assms v d nofault by (auto simp: index_chunks_def upload_documents_def)
  ultimately show ?thesis
    using d by blast
qed

lemma index_chunks_rows:
  "rows (snd (index_chunks ix document chunks store)) = rows store \<or>
   (\<exists>vectors docs.
      documents_to_index ix document chunks vectors = Inr docs \<and>
      rows (snd (index_chunks ix document chunks store)) =
        foldl (\<lambda>rs d. if upload_accepts ix d then upsert d rs else rs) (rows store) docs)"
  by (auto simp: index_chunks_def upload_documents_def split: sum.splits option.splits)

lemma index_document_rows:
  assumes "download_document ix document = Inr content_bytes"
    and "chunk_text (extract_text ix document content_bytes) = Some chunks"
  shows "\<exists>result store'.
           index_document ix document store = Some (result, store') \<and>
           (rows store' = rows store \<or>
            (\<exists>vectors docs.
               documents_to_index ix document chunks vectors = Inr docs \<and>
               rows store' =
                 foldl (\<lambda>rs d. if upload_accepts ix d then upsert d rs else rs) (rows store) docs))"
proof (cases "extract_text ix document content_bytes = [] \<or> chunks = []")
  case True
  then show ?thesis
    using assms by (auto simp: index_document_def Let_def)
next
  case False
  then have "index_document ix document store = Some (index_chunks ix document chunks store)"
    using assms by (simp add: index_document_def Let_def)
  then show ?thesis
    using index_chunks_rows [of ix document chunks store]
    by (cases "index_chunks ix document chunks store") auto
qed

lemma chunk_text_empty: "chunk_text [] = Some []"
  by (simp add: chunk_text_def chunk_text_with_def normalize_def strip_def CHUNK_SIZE_def)

text \<open>
  C1, amended. For a document whose extracted text is unchanged, the chunk ids of two
  runs of \<open>index_document\<close> are the same: when the first run can compute its ids, so
  can the second, and the id at position \<open>i\<close> is in both the first 32 characters of
  the SHA-256 hex digest of \<open>document_id\<close>, \<open>i\<close> and the first 100 characters of the
  chunk, whatever the vectors and the time of the run. When the first run indexed
  every chunk, that is, returned the number of chunks, the store holds a record
  under each of these ids, and a second run returns and leaves the store with
  exactly the ids it had, in particular with the same number of records.
\<close>

theorem reindex_unchanged_document:
  assumes dl1: "download_document ix1 document = Inr content1"
    and dl2: "download_document ix2 document = Inr content2"
    and same_text: "extract_text ix2 document content2 = extract_text ix1 document content1"
    and chunks: "chunk_text (extract_text ix1 document content1) = Some chunks"
    and same_hash: "sha256_hexdigest ix2 = sha256_hexdigest ix1"
  shows "(\<forall>vectors1 vectors2 docs1.
            length chunks \<le> length vectors1 \<and> length chunks \<le> length vectors2 \<and>
            documents_to_index ix1 document chunks vectors1 = Inr docs1 \<longrightarrow>
            (\<exists>docs2.
               documents_to_index ix2 document chunks vectors2 = Inr docs2 \<and>
               map row_id docs2 = map row_id docs1 \<and>
               map row_id docs1 =
                 map (\<lambda>i. take 32 (sha256_hexdigest ix1
                              (doc_id document @ py ''_'' @ str_nat i @ py ''_'' @
                               take 100 (chunks ! i))))
                   [0..<length chunks])) \<and>
         (\<forall>store0 store1 n.
            index_document ix1 document store0 = Some (Inr n, store1) \<and> n = length chunks \<longrightarrow>
            (\<forall>i<length chunks.
               take 32 (sha256_hexdigest ix1
                  (doc_id document @ py ''_'' @ str_nat i @ py ''_'' @ take 100 (chunks ! i)))
                 \<in> row_id ` set (rows store1)) \<and>
            (\<exists>result2 store2.
               index_document ix2 document store1 = Some (result2, store2) \<and>
               map row_id (rows store2) = map row_id (rows store1) \<and>
               length (rows store2) = length (rows store1)))"
proof -
  let ?src = "\<lambda>i. id_source (doc_id document) i (chunks ! i)"
  let ?id = "\<lambda>i. take 32 (sha256_hexdigest ix1 (?src i))"
  have ids: "\<exists>docs2.
        documents_to_index ix2 document chunks vectors2 = Inr docs2 \<and>
        map row_id docs2 = map row_id docs1 \<and>
        map row_id docs1 =
          map (\<lambda>i. take 32 (sha256_hexdigest ix1
                       (doc_id document @ py ''_'' @ str_nat i @ py ''_'' @ take 100 (chunks ! i))))
            [0..<length chunks]"
    if "length chunks \<le> length vectors1 \<and> length chunks \<le> length vectors2 \<and>
        documents_to_index ix1 document chunks vectors1 = Inr docs1"
    for vectors1 vectors2 docs1
  proof -
    from that have lens: "min (length chunks) (length vectors1) = length chunks"
      "min (length chunks) (length vectors2) = length chunks"
      and docs1: "documents_to_index ix1 document chunks vectors1 = Inr docs1"
      by simp_all
    have ids1: "map row_id docs1 = map ?id [0..<length chunks]"
      using row_ids_documents_to_index(1) [OF docs1] by (simp only: lens)
    have "\<forall>i<min (length chunks) (length vectors2). encodable (?src i)"
      using row_ids_documents_to_index(2) [OF docs1] by (simp only: lens)
    from documents_to_index_encodable [OF this, of ix2] obtain docs2 where
      docs2: "documents_to_index ix2 document chunks vectors2 = Inr docs2" ..
    have "map row_id docs2 = map ?id [0..<length chunks]"
      using row_ids_documents_to_index(1) [OF docs2] by (simp only: lens same_hash)
    then show ?thesis
      using docs2 ids1 by (simp add: id_source_def)
  qed
  have store: "(\<forall>i<length chunks.
         take 32 (sha256_hexdigest ix1
            (doc_id document @ py ''_'' @ str_nat i @ py ''_'' @ take 100 (chunks ! i)))
           \<in> row_id ` set (rows store1)) \<and>
      (\<exists>result2 store2.
        index_document ix2 document store1 = Some (result2, store2) \<and>
        map row_id (rows store2) = map row_id (rows store1) \<and>
        length (rows store2) = length (rows store1))"
    if "index_document ix1 document store0 = Some (Inr n, store1) \<and> n = length chunks"
    for store0 store1 n
  proof -
    from that have run1: "index_document ix1 document store0 = Some (Inr n, store1)"
      and all_indexed: "n = length chunks"
      by simp_all
    have known: "?id ` {0..<length chunks} \<subseteq> row_id ` set (rows store1)"
    proof (cases "extract_text ix1 document content1 = [] \<or> chunks = []")
      case True
      then have "chunks = []"
        using chunks by (auto simp: chunk_text_empty)
      then show ?thesis by simp
    next
      case False
      then have "index_chunks ix1 document chunks store0 = (Inr n, store1)"
        using run1 dl1 chunks by (simp add: index_document_def Let_def)
      from index_chunks_result [OF this] obtain vectors docs where
        docs: "documents_to_index ix1 document chunks vectors = Inr docs"
        and n: "n = length (filter (upload_accepts ix1) docs)"
        and rows1: "rows store1 =
          foldl (\<lambda>rs d. if upload_accepts ix1 d then upsert d rs else rs) (rows store0) docs"
        by blast
      have "length (filter (upload_accepts ix1) docs) \<le> length docs"
        by simp
      moreover have "length docs \<le> length chunks"
        by (simp add: length_documents_to_index [OF docs])
      ultimately have len: "length docs = length chunks"
        "length (filter (upload_accepts ix1) docs) = length docs"
        using n all_indexed by linarith+
      then have all: "filter (upload_accepts ix1) docs = docs"
        by (intro filter_all_of_length)
      have "min (length chunks) (length vectors) = length chunks"
        using len(1) by (simp add: length_documents_to_index [OF docs])
      then have "map row_id docs = map ?id [0..<length chunks]"
        using row_ids_documents_to_index(1) [OF docs] by simp
      then have "row_id ` set docs = ?id ` {0..<length chunks}"
        by (metis set_map set_upt)
      then show ?thesis
        using stored_ids_grow [of "upload_accepts ix1" "rows store0" docs]
        by (simp add: rows1 all)
    qed
    have chunks2: "chunk_text (extract_text ix2 document content2) = Some chunks"
      using chunks same_text by simp
    from index_document_rows [OF dl2 chunks2, of store1] obtain result2 store2 where
      run2: "index_document ix2 document store1 = Some (result2, store2)"
      and rows2: "rows store2 = rows store1 \<or>
        (\<exists>vectors docs.
           documents_to_index ix2 document chunks vectors = Inr docs \<and>
           rows store2 =
             foldl (\<lambda>rs d. if upload_accepts ix2 d then upsert d rs else rs) (rows store1) docs)"
      by blast
    have "map row_id (rows store2) = map row_id (rows store1)"
      using rows2
    proof
      assume "rows store2 = rows store1"
      then show ?thesis by simp
    next
      assume "\<exists>vectors docs.
           documents_to_index ix2 document chunks vectors = Inr docs \<and>
           rows store2 =
             foldl (\<lambda>rs d. if upload_accepts ix2 d then upsert d rs else rs) (rows store1) docs"
      then obtain vectors docs where
        docs: "documents_to_index ix2 document chunks vectors = Inr docs"
        and r: "rows store2 =
           foldl (\<lambda>rs d. if upload_accepts ix2 d then upsert d rs else rs) (rows store1) docs"
        by blast
      have "map row_id docs = map ?id [0..<min (length chunks) (length vectors)]"
        using row_ids_documents_to_index(1) [OF docs] by (simp only: same_hash)
      then have "row_id ` set docs = ?id ` {0..<min (length chunks) (length vectors)}"
        by (metis set_map set_upt)
      also have "\<dots> \<subseteq> ?id ` {0..<length chunks}"
        by (intro image_mono) simp
      finally have "row_id ` set docs \<subseteq> row_id ` set (rows store1)"
        using known by blast
      then show ?thesis
        unfolding r by (rule stored_ids_known)
    qed
    moreover from this have "length (rows store2) = length (rows store1)"
      by (metis length_map)
    ultimately have "\<exists>result2 store2.
        index_document ix2 document store1 = Some (result2, store2) \<and>
        map row_id (rows store2) = map row_id (rows store1) \<and>
        length (rows store2) = length (rows store1)"
      using run2 by blast
    moreover have "\<forall>i<length chunks.
         take 32 (sha256_hexdigest ix1
            (doc_id document @ py ''_'' @ str_nat i @ py ''_'' @ take 100 (chunks ! i)))
           \<in> row_id ` set (rows store1)"
      using known by (auto simp: id_source_def)
    ultimately show ?thesis
      by (intro conjI)
  qed
  show ?thesis
    by (rule conjI; intro allI; rule impI; (erule ids | erule store))
qed

subsection \<open>The indexing scenarios\<close>

lemma reversing_embedder_permuted:
  "answers_permuted (embeddings_create reversing_embedder 1) length_vector"
  by (simp add: answers_permuted_def reversing_embedder_def)

lemma chunk_text_leave_policy: "chunk_text leave_policy = Some [leave_policy]"
proof -
  have "normalize leave_policy = leave_policy"
    by (simp add: normalize_def strip_def leave_policy_def py_def is_space_def)
  moreover have "length leave_policy = 13" "leave_policy \<noteq> []"
    by (simp_all add: leave_policy_def py_def)
  ultimately show ?thesis
    using chunk_text_short [of leave_policy CHUNK_SIZE CHUNK_OVERLAP]
    by (simp add: chunk_text_def CHUNK_SIZE_def)
qed

lemma embed_leave_policy:
  "generate_embeddings_batch reversing_embedder [leave_policy] 100 = Inr [[13]]"
proof -
  have "preprocess reversing_embedder [leave_policy] = [leave_policy]"
    by (simp add: preprocess_def truncate_to_token_limit_def token_limit_def
        reversing_embedder_def strip_def leave_policy_def py_def is_space_def)
  moreover have "length_vector leave_policy = [13]"
    by (simp add: length_vector_def leave_policy_def py_def)
  ultimately show ?thesis
    using generate_embeddings_batch_permuted [OF _ reversing_embedder_permuted, of 100 "[leave_policy]"]
    by simp
qed

lemma handbook_supported: "is_supported handbook" "is_pdf handbook"
  by (simp_all add: is_supported_def is_pdf_def handbook_def)

lemma broken_supported: "is_supported broken"
  by (simp add: is_supported_def is_pdf_def is_docx_def broken_def py_eq_iff)

lemma handbook_id_encodable: "encodable (id_source (py ''d1'') 0 leave_policy)"
  by (simp add: encodable_def id_source_def str_nat.simps leave_policy_def py_def is_surrogate_def)

lemma handbook_documents:
  "documents_to_index demo_indexer handbook [leave_policy] [[13]] = Inr [handbook_row]"
  by (simp add: documents_to_index_def chunk_id_def handbook_id_encodable handbook_row_def
      handbook_def demo_indexer_def py_append)

lemma handbook_download:
  "download_document demo_indexer handbook = Inr [37, 80, 68, 70]"
  "download_document later_indexer handbook = Inr [37, 80, 68, 70]"
  "download_document rejecting_indexer handbook = Inr [37, 80, 68, 70]"
  by (simp_all add: demo_indexer_def later_indexer_def rejecting_indexer_def handbook_def py_eq_iff)

lemma handbook_text:
  "extract_text demo_indexer handbook content_bytes = leave_policy"
  "extract_text later_indexer handbook content_bytes = leave_policy"
  "extract_text rejecting_indexer handbook content_bytes = leave_policy"
  by (simp_all add: extract_text_def handbook_supported demo_indexer_def later_indexer_def
      rejecting_indexer_def)

lemma leave_policy_not_empty: "leave_policy \<noteq> []"
  by (simp add: leave_policy_def py_def)

lemma index_document_handbook:
  "index_document demo_indexer handbook empty_index = Some (Inr 1, indexed_once)"
proof -
  have "index_chunks demo_indexer handbook [leave_policy] empty_index = (Inr 1, indexed_once)"
  proof -
    have "idx_embeddings demo_indexer = reversing_embedder"
      "upload_fault demo_indexer = (\<lambda>docs. None)" "upload_accepts demo_indexer = (\<lambda>d. True)"
      by (simp_all add: demo_indexer_def)
    then show ?thesis
      by (simp add: index_chunks_def embed_leave_policy handbook_documents upload_documents_def
          indexed_once_def empty_index_def)
  qed
  then show ?thesis
    by (simp add: index_document_def handbook_download handbook_text leave_policy_not_empty
        chunk_text_leave_policy)
qed

lemma index_document_rejected:
  "index_document rejecting_indexer handbook empty_index = Some (Inr 0, empty_index)"
proof -
  have docs: "documents_to_index rejecting_indexer handbook [leave_policy] [[13]] = Inr [handbook_row]"
    by (simp add: documents_to_index_def chunk_id_def handbook_id_encodable handbook_row_def
        handbook_def rejecting_indexer_def demo_indexer_def py_append)
  have "index_chunks rejecting_indexer handbook [leave_policy] empty_index = (Inr 0, empty_index)"
  proof -
    have "idx_embeddings rejecting_indexer = reversing_embedder"
      "upload_fault rejecting_indexer = (\<lambda>docs. None)"
      "upload_accepts rejecting_indexer = (\<lambda>d. False)"
      by (simp_all add: rejecting_indexer_def demo_indexer_def)
    then show ?thesis
      by (simp add: index_chunks_def embed_leave_policy docs upload_documents_def empty_index_def)
  qed
  then show ?thesis
    by (simp add: index_document_def handbook_download handbook_text leave_policy_not_empty
        chunk_text_leave_policy)
qed

lemma index_document_broken:
  "index_document demo_indexer broken store = Some (Inl HTTPStatusError, store)"
  by (simp add: index_document_def demo_indexer_def broken_def)

text \<open>
  C1, as stated, fails: re-indexing can add records. While the search service accepts
  no record, a first run of \<open>index_document\<close> on \<open>handbook.pdf\<close> returns 0 and leaves
  the index empty; a second run on the same document, with the same extracted text,
  then stores its chunk: the index grows from no record to one.
\<close>

theorem reindex_after_rejected_upload:
  "extract_text demo_indexer handbook [37, 80, 68, 70] =
     extract_text rejecting_indexer handbook [37, 80, 68, 70] \<and>
   index_document rejecting_indexer handbook empty_index = Some (Inr 0, empty_index) \<and>
   index_document demo_indexer handbook empty_index = Some (Inr 1, indexed_once) \<and>
   length (rows empty_index) = 0 \<and>
   length (rows indexed_once) = 1"
  using index_document_rejected index_document_handbook
  by (simp add: handbook_text empty_index_def indexed_once_def)

theorem reindex_unchanged_document_witness:
  "download_document demo_indexer handbook = Inr [37, 80, 68, 70] \<and>
   download_document later_indexer handbook = Inr [37, 80, 68, 70] \<and>
   extract_text later_indexer handbook [37, 80, 68, 70] =
     extract_text demo_indexer handbook [37, 80, 68, 70] \<and>
   chunk_text (extract_text demo_indexer handbook [37, 80, 68, 70]) = Some [leave_policy] \<and>
   sha256_hexdigest later_indexer = sha256_hexdigest demo_indexer \<and>
   length [leave_policy] \<le> length [[13 :: real]] \<and>
   documents_to_index demo_indexer handbook [leave_policy] [[13]] = Inr [handbook_row] \<and>
   (\<exists>docs2.
      documents_to_index later_indexer handbook [leave_policy] [[13]] = Inr docs2 \<and>
      map row_id docs2 = map row_id [handbook_row]) \<and>
   index_document demo_indexer handbook empty_index = Some (Inr 1, indexed_once) \<and>
   1 = length [leave_policy] \<and>
   (\<exists>result2 store2.
      index_document later_indexer handbook indexed_once = Some (result2, store2) \<and>
      map row_id (rows store2) = map row_id (rows indexed_once) \<and>
      length (rows store2) = length (rows indexed_once))"
proof -
  have same_text: "extract_text later_indexer handbook [37, 80, 68, 70] =
      extract_text demo_indexer handbook [37, 80, 68, 70]"
    by (simp add: handbook_text)
  have chunks: "chunk_text (extract_text demo_indexer handbook [37, 80, 68, 70]) = Some [leave_policy]"
    by (simp add: handbook_text chunk_text_leave_policy)
  have hash: "sha256_hexdigest later_indexer = sha256_hexdigest demo_indexer"
    by (simp add: later_indexer_def)
  have len: "length [leave_policy] \<le> length [[13 :: real]]"
    by simp
  have all: "1 = length [leave_policy]"
    by simp
  note both = reindex_unchanged_document
    [OF handbook_download(1) handbook_download(2) same_text chunks hash]
  have ids: "\<exists>docs2.
      documents_to_index later_indexer handbook [leave_policy] [[13]] = Inr docs2 \<and>
      map row_id docs2 = map row_id [handbook_row]"
    using both [THEN conjunct1, rule_format, of "[[13]]" "[[13]]" "[handbook_row]"]
      handbook_documents
    by auto
  have second: "\<exists>result2 store2.
      index_document later_indexer handbook indexed_once = Some (result2, store2) \<and>
      map row_id (rows store2) = map row_id (rows indexed_once) \<and>
      length (rows store2) = length (rows indexed_once)"
    by (rule both [THEN conjunct2, rule_format, of empty_index 1 indexed_once, THEN conjunct2])
      (intro conjI index_document_handbook all)
  show ?thesis
    by (intro conjI handbook_download(1) handbook_download(2) same_text chunks hash len
        handbook_documents ids index_document_handbook all second)
qed

theorem index_all_documents_isolation_witness:
  "ensure_index_exists demo_indexer = Inr () \<and>
   list_documents demo_indexer = Inr [broken, handbook] \<and>
   filter is_supported [broken, handbook] = [broken, handbook] \<and>
   index_document demo_indexer broken empty_index = Some (Inl HTTPStatusError, empty_index) \<and>
   index_document demo_indexer handbook empty_index = Some (Inr 1, indexed_once) \<and>
   (\<exists>results.
      index_all_documents demo_indexer empty_index = Some (Inr results, indexed_once) \<and>
      dom results = {doc_name broken, doc_name handbook} \<and>
      results (doc_name broken) = Some 0 \<and>
      results (doc_name handbook) = Some 1)"
proof -
  have ensure: "ensure_index_exists demo_indexer = Inr ()"
    by (simp add: ensure_index_exists_def demo_indexer_def)
  have listed: "list_documents demo_indexer = Inr [broken, handbook]"
    by (simp add: demo_indexer_def)
  have supported: "filter is_supported [broken, handbook] = [broken, handbook]"
    by (simp add: handbook_supported broken_supported)
  have names: "doc_name broken \<noteq> doc_name handbook"
    by (simp add: broken_def handbook_def py_eq_iff)
  from index_all_documents_isolation [OF ensure listed, of empty_index, unfolded supported]
  obtain results store' outcomes stores where
    all: "index_all_documents demo_indexer empty_index = Some (Inr results, store')"
    and dom: "dom results = doc_name ` {d \<in> set [broken, handbook]. is_supported d}"
    and first: "stores ! 0 = empty_index"
    and last: "stores ! length [broken, handbook] = store'"
    and steps: "\<forall>k<length [broken, handbook].
        index_document demo_indexer ([broken, handbook] ! k) (stores ! k) =
          Some (outcomes ! k, stores ! Suc k) \<and>
        (doc_name ([broken, handbook] ! k) \<notin> doc_name ` set (drop (Suc k) [broken, handbook]) \<longrightarrow>
           results (doc_name ([broken, handbook] ! k)) =
             Some (case outcomes ! k of Inl e \<Rightarrow> 0 | Inr c \<Rightarrow> c))"
    by (elim exE conjE)
  have step0: "index_document demo_indexer broken (stores ! 0) = Some (outcomes ! 0, stores ! Suc 0)"
    and entry0: "results (doc_name broken) = Some (case outcomes ! 0 of Inl e \<Rightarrow> 0 | Inr c \<Rightarrow> c)"
    using steps [rule_format, of 0] names by simp_all
  have step1: "index_document demo_indexer handbook (stores ! Suc 0) =
      Some (outcomes ! Suc 0, stores ! Suc (Suc 0))"
    and entry1: "results (doc_name handbook) =
      Some (case outcomes ! Suc 0 of Inl e \<Rightarrow> 0 | Inr c \<Rightarrow> c)"
    using steps [rule_format, of "Suc 0"] by simp_all
  from step0 have out0: "outcomes ! 0 = Inl HTTPStatusError" and store1: "stores ! Suc 0 = empty_index"
    by (simp_all add: first index_document_broken)
  from step1 have out1: "outcomes ! Suc 0 = Inr 1" and store2: "stores ! Suc (Suc 0) = indexed_once"
    by (simp_all add: store1 index_document_handbook)
  have final: "store' = indexed_once"
    using last store2 by simp
  have "{d \<in> set [broken, handbook]. is_supported d} = {broken, handbook}"
    using handbook_supported(1) broken_supported by auto
  then have dom': "dom results = {doc_name broken, doc_name handbook}"
    using dom by simp
  have "\<exists>results.
      index_all_documents demo_indexer empty_index = Some (Inr results, indexed_once) \<and>
      dom results = {doc_name broken, doc_name handbook} \<and>
      results (doc_name broken) = Some 0 \<and>
      results (doc_name handbook) = Some 1"
    using all dom' entry0 entry1 by (intro exI [of _ results]) (simp add: final out0 out1)
  then show ?thesis
    by (intro conjI ensure listed supported index_document_broken index_document_handbook)
qed

end
